theory Spec2Isabelle
  imports Complex_Main
begin

section \<open>Python values\<close>

text \<open>
  A Python \<^verbatim>\<open>dict\<close> with string keys and string values is an association list in
  insertion order with distinct keys; \<^verbatim>\<open>d[k] = v\<close> and \<^verbatim>\<open>d.update({k: v})\<close> replace the value
  of a key that is present and append the pair otherwise.
\<close>

type_synonym dict = "(string \<times> string) list"

definition dict_update :: "dict \<Rightarrow> string \<Rightarrow> string \<Rightarrow> dict" where
  "dict_update d k v =
     (if k \<in> fst ` set d then map (\<lambda>(k', v'). if k' = k then (k', v) else (k', v')) d
      else d @ [(k, v)])"

text \<open>\<^verbatim>\<open>str.strip()\<close> removes leading and trailing whitespace (the ASCII whitespace
  characters of \<^verbatim>\<open>str.isspace\<close>); \<^verbatim>\<open>s.lstrip("/")\<close> and \<^verbatim>\<open>s.rstrip("/")\<close> remove slashes.\<close>

definition py_isspace :: "char \<Rightarrow> bool" where
  "py_isspace c = (of_char c \<in> {9, 10, 11, 12, 13, 28, 29, 30, 31, 32 :: nat})"

definition py_strip :: "string \<Rightarrow> string" where
  "py_strip s = rev (dropWhile py_isspace (rev (dropWhile py_isspace s)))"

definition lstrip_slash :: "string \<Rightarrow> string" where
  "lstrip_slash s = dropWhile (\<lambda>c. c = CHR ''/'') s"

definition rstrip_slash :: "string \<Rightarrow> string" where
  "rstrip_slash s = rev (dropWhile (\<lambda>c. c = CHR ''/'') (rev s))"

section \<open>The transport collaborator\<close>

text \<open>
  The response object the transport hands back (\<^verbatim>\<open>connection.getresponse()\<close>); the
  fields are the attributes the response classes read.
\<close>

record transport_response =
  response_headers :: dict
  response_reason :: string
  response_status_code :: int
  response_text :: "string option"
  response_content :: string

text \<open>What one exchange with the remote end does: it answers, or it raises.\<close>

datatype exchange_outcome =
    Responds transport_response
  | Raises_gaierror "int option" string
  | Raises_SSLError string
  | Raises_other string

record sent_request =
  sent_method :: string
  sent_url :: string
  sent_body :: "string option"
  sent_headers :: dict
  sent_raw :: bool
  sent_stream :: bool

text \<open>
  Modelled from the spec: \<^verbatim>\<open>LibcloudConnection\<close> (\<^verbatim>\<open>libcloud.http\<close>, not under src/), the
  transport collaborator of section 6: it sends a request, keeps the response of the last
  exchange and hands it back on \<^verbatim>\<open>getresponse()\<close>. \<open>script\<close> is the remote end: the
  outcome of the n-th exchange. \<open>sent\<close> logs the exchanges and \<open>fetches\<close> counts the calls
  of \<^verbatim>\<open>getresponse()\<close>.
\<close>

record transport =
  script :: "nat \<Rightarrow> exchange_outcome"
  sent :: "sent_request list"
  last_response :: "transport_response option"
  fetches :: nat

definition getresponse :: "transport \<Rightarrow> transport_response option \<times> transport" where
  "getresponse tr = (last_response tr, tr\<lparr>fetches := Suc (fetches tr)\<rparr>)"

definition transport_request :: "transport \<Rightarrow> sent_request \<Rightarrow> exchange_outcome \<times> transport" where
  "transport_request tr req =
     (let outcome = script tr (length (sent tr)); tr' = tr\<lparr>sent := sent tr @ [req]\<rparr>
      in case outcome of
           Responds r \<Rightarrow> (outcome, tr'\<lparr>last_response := Some r\<rparr>)
         | _ \<Rightarrow> (outcome, tr'))"

section \<open>Response classes\<close>

datatype ('j, 'x) pobject = Body string | JsonObject 'j | XmlObject 'x

text \<open>
  Every exception of the source is a value. \<open>ExceptionFromMessage code message headers\<close>
  is the exception \<^verbatim>\<open>exception_from_message(code=, message=, headers=)\<close> builds.

  Modelled from the spec: \<^verbatim>\<open>exception_from_message\<close> (\<^verbatim>\<open>libcloud.common.exceptions\<close>, not
  under src/), the error-mapping collaborator: it maps a status code, a message and the
  headers to a structured exception that carries them.
\<close>

datatype ('j, 'x) error =
    ExceptionFromMessage int "('j, 'x) pobject" dict
  | MalformedResponseError string string "string option"
  | Gaierror "int option" string
  | SSLError string
  | AttributeError
  | AssertionError
  | OtherException string
  | LibcloudError string
  | NotImplementedError string

text \<open>The structured-format parsers are collaborators: \<^verbatim>\<open>json.loads\<close> answers or raises;
  \<^verbatim>\<open>ET.XML\<close> answers, raises \<^verbatim>\<open>ValueError\<close> (it wants bytes) or raises something else.\<close>

datatype xml_input = XmlStr string | XmlBytes string

datatype 'x xml_result = XmlOk 'x | XmlValueError | XmlException

datatype parser_call = Call_json_loads string | Call_ET_XML xml_input

record ('j, 'x) parsers =
  json_loads :: "string \<Rightarrow> 'j option"
  ET_XML :: "xml_input \<Rightarrow> 'x xml_result"
  lowercase_keys :: "dict \<Rightarrow> dict"

text \<open>The three buffered classes of the file, and the class attribute
  \<^verbatim>\<open>parse_zero_length_body\<close> a subclass may set.\<close>

datatype format = PlainFormat | JsonFormat | XmlFormat

record response_cls =
  cls_format :: format
  parse_zero_length_body :: bool

record ('j, 'x) response =
  headers :: dict
  error :: string
  status :: int
  body :: string
  object :: "('j, 'x) pobject"

text \<open>\<^verbatim>\<open>requests.codes.ok\<close>, \<^verbatim>\<open>requests.codes.created\<close>, \<^verbatim>\<open>httplib.OK\<close>,
  \<^verbatim>\<open>httplib.CREATED\<close>, \<^verbatim>\<open>httplib.ACCEPTED\<close>.\<close>

definition success :: "int \<Rightarrow> bool" where
  "success st = (st \<in> set [200, 201, 200, 201, 202])"

text \<open>
  \<^verbatim>\<open>parse_body\<close> of each class. The result comes with the list of parser invocations made
  on the way, in order.
\<close>

definition Response_parse_body ::
  "string \<Rightarrow> (('j, 'x) error + ('j, 'x) pobject) \<times> parser_call list" where
  "Response_parse_body b = (Inr (Body b), [])"

definition JsonResponse_parse_body ::
  "('j, 'x) parsers \<Rightarrow> string option \<Rightarrow> bool \<Rightarrow> string \<Rightarrow>
     (('j, 'x) error + ('j, 'x) pobject) \<times> parser_call list" where
  "JsonResponse_parse_body ps drv pzlb b =
     (if length b = 0 \<and> \<not> pzlb then (Inr (Body b), [])
      else case json_loads ps b of
             None \<Rightarrow> (Inl (MalformedResponseError ''Failed to parse JSON'' b drv), [Call_json_loads b])
           | Some j \<Rightarrow> (Inr (JsonObject j), [Call_json_loads b]))"

definition XmlResponse_parse_body ::
  "('j, 'x) parsers \<Rightarrow> string option \<Rightarrow> bool \<Rightarrow> string \<Rightarrow>
     (('j, 'x) error + ('j, 'x) pobject) \<times> parser_call list" where
  "XmlResponse_parse_body ps drv pzlb b =
     (if length b = 0 \<and> \<not> pzlb then (Inr (Body b), [])
      else case ET_XML ps (XmlStr b) of
             XmlOk x \<Rightarrow> (Inr (XmlObject x), [Call_ET_XML (XmlStr b)])
           | XmlException \<Rightarrow>
               (Inl (MalformedResponseError ''Failed to parse XML'' b drv), [Call_ET_XML (XmlStr b)])
           | XmlValueError \<Rightarrow>
               (case ET_XML ps (XmlBytes b) of
                  XmlOk x \<Rightarrow> (Inr (XmlObject x), [Call_ET_XML (XmlStr b), Call_ET_XML (XmlBytes b)])
                | _ \<Rightarrow> (Inl (MalformedResponseError ''Failed to parse XML'' b drv),
                         [Call_ET_XML (XmlStr b), Call_ET_XML (XmlBytes b)])))"

definition parse_body ::
  "('j, 'x) parsers \<Rightarrow> string option \<Rightarrow> response_cls \<Rightarrow> string \<Rightarrow>
     (('j, 'x) error + ('j, 'x) pobject) \<times> parser_call list" where
  "parse_body ps drv cls b =
     (case cls_format cls of
        PlainFormat \<Rightarrow> Response_parse_body b
      | JsonFormat \<Rightarrow> JsonResponse_parse_body ps drv (parse_zero_length_body cls) b
      | XmlFormat \<Rightarrow> XmlResponse_parse_body ps drv (parse_zero_length_body cls) b)"

text \<open>\<^verbatim>\<open>Response.parse_error\<close> returns the body; the JSON and XML classes set
  \<^verbatim>\<open>parse_error = parse_body\<close>.\<close>

definition parse_error ::
  "('j, 'x) parsers \<Rightarrow> string option \<Rightarrow> response_cls \<Rightarrow> string \<Rightarrow>
     (('j, 'x) error + ('j, 'x) pobject) \<times> parser_call list" where
  "parse_error ps drv cls b =
     (case cls_format cls of
        PlainFormat \<Rightarrow> (Inr (Body b), [])
      | _ \<Rightarrow> parse_body ps drv cls b)"

text \<open>
  \<^verbatim>\<open>Response.__init__(response, connection)\<close>: \<open>drv\<close> is \<^verbatim>\<open>connection.driver\<close>. A
  missing response (\<^verbatim>\<open>None\<close>) fails at the first attribute read.
\<close>

definition Response_init ::
  "('j, 'x) parsers \<Rightarrow> string option \<Rightarrow> response_cls \<Rightarrow> transport_response option \<Rightarrow>
     (('j, 'x) error + ('j, 'x) response) \<times> parser_call list" where
  "Response_init ps drv cls resp =
     (case resp of
        None \<Rightarrow> (Inl AttributeError, [])
      | Some r \<Rightarrow>
          (let hs = lowercase_keys ps (response_headers r);
               st = response_status_code r;
               b = (case response_text r of Some t \<Rightarrow> py_strip t | None \<Rightarrow> '''')
           in if \<not> success st then
                (case parse_error ps drv cls b of
                   (Inl e, calls) \<Rightarrow> (Inl e, calls)
                 | (Inr m, calls) \<Rightarrow> (Inl (ExceptionFromMessage st m hs), calls))
              else
                (case parse_body ps drv cls b of
                   (Inl e, calls) \<Rightarrow> (Inl e, calls)
                 | (Inr ob, calls) \<Rightarrow>
                     (Inr \<lparr>headers = hs, error = response_reason r, status = st, body = b,
                           object = ob\<rparr>, calls))))"

section \<open>The raw response\<close>

text \<open>
  Modelled from the spec: \<^verbatim>\<open>HttpLibResponseProxy\<close> (\<^verbatim>\<open>libcloud.http\<close>, not under src/), the
  wrapper around the transport's still-open response whose \<^verbatim>\<open>body\<close> and \<^verbatim>\<open>reason\<close> read the
  wrapped response. It is an ordinary object, so it is true in a condition; reading an
  attribute of a wrapped \<^verbatim>\<open>None\<close> fails.
\<close>

datatype proxy = HttpLibResponseProxy "transport_response option"

definition proxy_body :: "proxy \<Rightarrow> ('j, 'x) error + string" where
  "proxy_body p =
     (case p of HttpLibResponseProxy None \<Rightarrow> Inl AttributeError
              | HttpLibResponseProxy (Some r) \<Rightarrow> Inr (response_content r))"

definition proxy_reason :: "proxy \<Rightarrow> ('j, 'x) error + string" where
  "proxy_reason p =
     (case p of HttpLibResponseProxy None \<Rightarrow> Inl AttributeError
              | HttpLibResponseProxy (Some r) \<Rightarrow> Inr (response_reason r))"

text \<open>\<open>priv_response\<close> and \<open>priv_reason\<close> are the attributes \<^verbatim>\<open>_response\<close> and \<^verbatim>\<open>_reason\<close>.\<close>

record raw_response =
  raw_headers :: dict
  raw_error :: "string option"
  raw_status :: int
  priv_response :: "proxy option"
  priv_reason :: "string option"

text \<open>
  The property \<^verbatim>\<open>RawResponse.response\<close>, on the transport \<^verbatim>\<open>self.connection.connection\<close>.
  After the fetch, a failed status runs \<^verbatim>\<open>parse_error()\<close>, which reads \<^verbatim>\<open>self.body\<close>: the
  response is cached by then, so that read is the cached proxy's body.
\<close>

definition RawResponse_response ::
  "raw_response \<Rightarrow> transport \<Rightarrow> (('j, 'x) error + proxy) \<times> raw_response \<times> transport" where
  "RawResponse_response rr tr =
     (case priv_response rr of
        Some p \<Rightarrow> (Inr p, rr, tr)
      | None \<Rightarrow>
          (let (r, tr') = getresponse tr;
               p = HttpLibResponseProxy r;
               rr' = rr\<lparr>priv_response := Some p\<rparr>
           in if \<not> success (raw_status rr') then
                (case (proxy_body p :: ('j, 'x) error + string) of
                   Inl e \<Rightarrow> (Inl e, rr', tr')
                 | Inr _ \<Rightarrow> (Inr p, rr', tr'))
              else (Inr p, rr', tr')))"

definition RawResponse_body ::
  "raw_response \<Rightarrow> transport \<Rightarrow> (('j, 'x) error + string) \<times> raw_response \<times> transport" where
  "RawResponse_body rr tr =
     (case RawResponse_response rr tr of
        (Inl e, rr', tr') \<Rightarrow> (Inl e, rr', tr')
      | (Inr p, rr', tr') \<Rightarrow> (proxy_body p, rr', tr'))"

definition RawResponse_reason ::
  "raw_response \<Rightarrow> transport \<Rightarrow> (('j, 'x) error + string) \<times> raw_response \<times> transport" where
  "RawResponse_reason rr tr =
     (if priv_reason rr = None \<or> priv_reason rr = Some '''' then
        (case RawResponse_response rr tr of
           (Inl e, rr', tr') \<Rightarrow> (Inl e, rr', tr')
         | (Inr p, rr', tr') \<Rightarrow>
             (case proxy_reason p of
                Inl e \<Rightarrow> (Inl e, rr', tr')
              | Inr s \<Rightarrow> (Inr s, rr'\<lparr>priv_reason := Some s\<rparr>, tr')))
      else (case priv_reason rr of Some s \<Rightarrow> (Inr s, rr, tr) | None \<Rightarrow> (Inr '''', rr, tr)))"

text \<open>\<^verbatim>\<open>RawResponse.__init__(connection, response=None)\<close>: a failed status runs
  \<^verbatim>\<open>parse_error()\<close>, which reads \<^verbatim>\<open>self.body\<close>.\<close>

definition RawResponse_init ::
  "(dict \<Rightarrow> dict) \<Rightarrow> transport_response option \<Rightarrow> transport \<Rightarrow>
     (('j, 'x) error + raw_response) \<times> transport" where
  "RawResponse_init lk resp tr =
     (let rr = (case resp of
                  None \<Rightarrow> \<lparr>raw_headers = [], raw_error = None, raw_status = 200,
                           priv_response = None, priv_reason = None\<rparr>
                | Some r \<Rightarrow> \<lparr>raw_headers = lk (response_headers r),
                             raw_error = Some (response_reason r),
                             raw_status = response_status_code r,
                             priv_response = None, priv_reason = None\<rparr>)
      in if \<not> success (raw_status rr) then
           (case (RawResponse_body rr tr :: (('j, 'x) error + string) \<times> raw_response \<times> transport) of
              (Inl e, rr', tr') \<Rightarrow> (Inl e, tr')
            | (Inr _, rr', tr') \<Rightarrow> (Inr rr', tr'))
         else (Inr rr, tr))"

text \<open>A caller's reads of the two lazy properties, in order.\<close>

datatype access = ReadBody | ReadReason

definition read_one ::
  "access \<Rightarrow> raw_response \<Rightarrow> transport \<Rightarrow>
     (('j, 'x) error + string) \<times> raw_response \<times> transport" where
  "read_one a rr tr =
     (case a of ReadBody \<Rightarrow> RawResponse_body rr tr | ReadReason \<Rightarrow> RawResponse_reason rr tr)"

fun read_all ::
  "access list \<Rightarrow> raw_response \<Rightarrow> transport \<Rightarrow>
     (('j, 'x) error + string) list \<times> raw_response \<times> transport" where
  "read_all [] rr tr = ([], rr, tr)"
| "read_all (a # as) rr tr =
     (case read_one a rr tr of
        (v, rr', tr') \<Rightarrow> (case read_all as rr' tr' of (vs, rr'', tr'') \<Rightarrow> (v # vs, rr'', tr'')))"

text \<open>What a read of a lazy property gives when \<open>p\<close> is the response behind it.\<close>

definition lazy_value :: "proxy \<Rightarrow> access \<Rightarrow> ('j, 'x) error + string" where
  "lazy_value p a = (case a of ReadBody \<Rightarrow> proxy_body p | ReadReason \<Rightarrow> proxy_reason p)"

text \<open>The invariant of a raw response once it has fetched: the proxy is cached, and a
  cached reason is the reason of the response behind the proxy.\<close>

definition cached :: "raw_response \<Rightarrow> proxy \<Rightarrow> bool" where
  "cached rr p \<longleftrightarrow>
     priv_response rr = Some p \<and>
     (priv_reason rr = None \<or>
      (\<exists>r. p = HttpLibResponseProxy (Some r) \<and> priv_reason rr = Some (response_reason r)))"

section \<open>Strings: split, join, decimal numbers\<close>

text \<open>\<^verbatim>\<open>s.split(c)\<close> and \<^verbatim>\<open>sep.join(xs)\<close>.\<close>

fun split_on :: "char \<Rightarrow> string \<Rightarrow> string list" where
  "split_on c [] = [[]]"
| "split_on c (x # xs) =
     (if x = c then [] # split_on c xs
      else (case split_on c xs of y # ys \<Rightarrow> (x # y) # ys | [] \<Rightarrow> [[x]]))"

fun join :: "string \<Rightarrow> string list \<Rightarrow> string" where
  "join sep [] = []"
| "join sep [x] = x"
| "join sep (x # y # ys) = x @ sep @ join sep (y # ys)"

definition startswith :: "string \<Rightarrow> string \<Rightarrow> bool" where
  "startswith s p = (take (length p) s = p)"

text \<open>\<^verbatim>\<open>"%d" % n\<close>.\<close>

definition digit :: "nat \<Rightarrow> char" where
  "digit n = ''0123456789'' ! n"

fun str_nat :: "nat \<Rightarrow> string" where
  "str_nat n = (if n < 10 then [digit n] else str_nat (n div 10) @ [digit (n mod 10)])"

declare str_nat.simps [simp del]

definition str_int :: "int \<Rightarrow> string" where
  "str_int i = (if i < 0 then CHR ''-'' # str_nat (nat (- i)) else str_nat (nat i))"

section \<open>Joining a path to a base\<close>

text \<open>
  Modelled from the spec: \<^verbatim>\<open>urljoin(base, url)\<close> (\<^verbatim>\<open>urllib.parse\<close> of the standard library,
  not under src/), as CPython implements it, for a base that \<^verbatim>\<open>urlparse\<close> reads as a path
  alone and a reference that it reads as a path followed, possibly, by a query. An empty
  operand gives the other one. A reference with an empty path gives the base, followed by
  the reference's query. Otherwise the base's last segment is dropped unless it is empty;
  the empty segments between the first and the last are filtered out (unless the
  reference's path starts with a slash, which replaces the base); \<^verbatim>\<open>.\<close> and \<^verbatim>\<open>..\<close> are
  resolved; the segments are joined with slashes and the query, if it is not empty, is put
  back after a \<^verbatim>\<open>?\<close>.

  \<open>url_path\<close> is what comes before the first \<^verbatim>\<open>?\<close> and \<open>url_query\<close> the rest, the \<^verbatim>\<open>?\<close>
  included.
\<close>

definition url_path :: "string \<Rightarrow> string" where
  "url_path url = takeWhile (\<lambda>c. c \<noteq> CHR ''?'') url"

definition url_query :: "string \<Rightarrow> string" where
  "url_query url = dropWhile (\<lambda>c. c \<noteq> CHR ''?'') url"

definition filter_middle :: "string list \<Rightarrow> string list" where
  "filter_middle segs =
     (case segs of
        [] \<Rightarrow> []
      | [x] \<Rightarrow> [x]
      | x # rest \<Rightarrow> x # filter (\<lambda>s. s \<noteq> []) (butlast rest) @ [last rest])"

definition resolve_dots :: "string list \<Rightarrow> string list" where
  "resolve_dots segs =
     foldl (\<lambda>resolved seg.
              if seg = ''..'' then butlast resolved
              else if seg = ''.'' then resolved
              else resolved @ [seg]) [] segs"

definition join_paths :: "string \<Rightarrow> string \<Rightarrow> string" where
  "join_paths bpath path =
     (let base_parts = split_on CHR ''/'' bpath;
          base_parts = (if last base_parts \<noteq> [] then butlast base_parts else base_parts);
          segments = (if take 1 path = ''/'' then split_on CHR ''/'' path
                      else filter_middle (base_parts @ split_on CHR ''/'' path));
          resolved_path = resolve_dots segments;
          resolved_path = (if last segments \<in> {''.'', ''..''} then resolved_path @ [[]]
                           else resolved_path);
          joined = join ''/'' resolved_path
      in if joined = [] then ''/'' else joined)"

definition urljoin_path :: "string \<Rightarrow> string \<Rightarrow> string" where
  "urljoin_path base url =
     (if base = [] then url
      else if url = [] then base
      else
        (let path = url_path url;
             query = drop 1 (url_query url);
             query_part = (if query = [] then [] else ''?'' @ query)
         in if path = [] then base @ query_part
            else join_paths base path @ query_part))"

text \<open>
  The operands on which \<open>urljoin_path\<close> is \<^verbatim>\<open>urljoin\<close>. In a path: no character that starts
  a scheme, parameters, a query or a fragment, and no space or control character (which
  \<^verbatim>\<open>urlsplit\<close> strips). A base: such a path that does not start with two slashes (which
  would make its first segment a network location). A reference: such a path that does not
  start with a slash, then nothing or a \<^verbatim>\<open>?\<close> and a query that is not empty and has
  no \<^verbatim>\<open>#\<close>, space or control character.
\<close>

definition plain_chars :: "string \<Rightarrow> bool" where
  "plain_chars s = list_all (\<lambda>c. c \<notin> set '':?#;'' \<and> 32 < (of_char c :: nat)) s"

definition query_chars :: "string \<Rightarrow> bool" where
  "query_chars q =
     (q = [] \<or> (2 \<le> length q \<and> list_all (\<lambda>c. c \<noteq> CHR ''#'' \<and> 32 < (of_char c :: nat)) q))"

definition base_operand :: "string \<Rightarrow> bool" where
  "base_operand b = (plain_chars b \<and> \<not> startswith b ''//'')"

definition url_operand :: "string \<Rightarrow> bool" where
  "url_operand u =
     (plain_chars (url_path u) \<and> \<not> startswith u ''/'' \<and> query_chars (url_query u))"

text \<open>The segments of a path that are not empty; a path without \<^verbatim>\<open>.\<close> and \<^verbatim>\<open>..\<close>
  segments; a string with two slashes in a row.\<close>

definition segments_of :: "string \<Rightarrow> string list" where
  "segments_of s = filter (\<lambda>seg. seg \<noteq> []) (split_on CHR ''/'' s)"

definition no_dots :: "string \<Rightarrow> bool" where
  "no_dots s = (''.'' \<notin> set (segments_of s) \<and> ''..'' \<notin> set (segments_of s))"

fun doubled_slash :: "string \<Rightarrow> bool" where
  "doubled_slash (a # b # rest) = ((a = CHR ''/'' \<and> b = CHR ''/'') \<or> doubled_slash (b # rest))"
| "doubled_slash _ = False"

section \<open>The endpoint connection\<close>

type_synonym heap = "dict list"

text \<open>
  The mappings a caller passes are objects: a reference is an index into the heap.
  \<^verbatim>\<open>copy.copy(d)\<close> (and \<^verbatim>\<open>{}\<close>) allocates a new object.
\<close>

definition alloc :: "heap \<Rightarrow> dict \<Rightarrow> nat \<times> heap" where
  "alloc h d = (length h, h @ [d])"

text \<open>The methods a provider's subclass overrides; \<open>Connection_hooks\<close> are the ones of
  \<^verbatim>\<open>Connection\<close> itself. A hook works on the object it is handed.\<close>

record hook_methods =
  add_default_params :: "dict \<Rightarrow> dict"
  add_default_headers :: "dict \<Rightarrow> dict"
  pre_connect_hook :: "dict \<Rightarrow> dict \<Rightarrow> dict \<times> dict"
  encode_data :: "string \<Rightarrow> string"

definition Connection_hooks :: hook_methods where
  "Connection_hooks =
     \<lparr>add_default_params = (\<lambda>params. params),
      add_default_headers = (\<lambda>headers. headers),
      pre_connect_hook = (\<lambda>params headers. (params, headers)),
      encode_data = (\<lambda>data. data)\<rparr>"

record conn_kwargs =
  kw_host :: string
  kw_port :: int
  kw_secure :: int
  kw_timeout :: "real option"
  kw_proxy_url :: "string option"

text \<open>The state of a \<^verbatim>\<open>Connection\<close> instance. \<open>conn_context\<close> and \<open>conn_method\<close> are the
  attributes \<^verbatim>\<open>context\<close> and \<^verbatim>\<open>method\<close>; \<open>driver\<close> is the driver's name, when a driver is
  attached; \<open>class_name\<close> is \<^verbatim>\<open>self.__class__.__name__\<close>.\<close>

record Connection =
  class_name :: string
  responseCls :: response_cls
  connection :: "transport option"
  host :: string
  port :: int
  timeout :: "real option"
  secure :: int
  driver :: "string option"
  action :: "string option"
  conn_method :: "string option"
  data :: "string option"
  cache_busting :: bool
  backoff :: "real option"
  retry_delay :: "real option"
  proxy_url :: "string option"
  ua :: "string list"
  conn_context :: dict
  request_path :: string

datatype ('j, 'x) any_response = Buffered "('j, 'x) response" | Raw raw_response

type_synonym ('j, 'x) operation =
  "Connection \<Rightarrow> (('j, 'x) error + ('j, 'x) any_response) \<times> Connection"

text \<open>
  What a call reads from outside the connection: the environment variable and the two
  module-level flags, the collaborators (\<^verbatim>\<open>urljoin\<close>, \<^verbatim>\<open>urlencode\<close>,
  \<^verbatim>\<open>libcloud.__version__\<close>, \<^verbatim>\<open>os.urandom\<close> in hexadecimal, \<^verbatim>\<open>conn_class\<close>), the format
  parsers, the hooks, and \<^verbatim>\<open>retryCls\<close>: the Retry Coordinator, which is given the retry
  delay, the timeout and the backoff and wraps an operation.
\<close>

record ('j, 'x) environment =
  environ_LIBCLOUD_RETRY_FAILED_HTTP_REQUESTS :: "string option"
  RETRY_FAILED_HTTP_REQUESTS :: bool
  ALLOW_PATH_DOUBLE_SLASHES :: bool
  urljoin :: "string \<Rightarrow> string \<Rightarrow> string"
  urlencode :: "dict \<Rightarrow> string"
  libcloud_version :: string
  urandom_hex :: string
  conn_class :: "conn_kwargs \<Rightarrow> transport"
  format_parsers :: "('j, 'x) parsers"
  hooks :: hook_methods
  retryCls :: "real option \<Rightarrow> real option \<Rightarrow> real option \<Rightarrow>
                 ('j, 'x) operation \<Rightarrow> ('j, 'x) operation"

definition reset_context :: "Connection \<Rightarrow> Connection" where
  "reset_context c = c\<lparr>conn_context := []\<rparr>"

text \<open>\<^verbatim>\<open>connect()\<close> as \<^verbatim>\<open>request\<close> calls it (no arguments), for a class without
  \<^verbatim>\<open>base_url\<close>, \<^verbatim>\<open>key_file\<close> or \<^verbatim>\<open>cert_file\<close>, as \<^verbatim>\<open>Connection\<close> is.\<close>

definition connect :: "('j, 'x) environment \<Rightarrow> Connection \<Rightarrow> Connection" where
  "connect env c =
     c\<lparr>connection := Some (conn_class env
          \<lparr>kw_host = host c, kw_port = port c, kw_secure = secure c,
           kw_timeout = (case timeout c of Some t \<Rightarrow> (if t \<noteq> 0 then Some t else None) | None \<Rightarrow> None),
           kw_proxy_url = (case proxy_url c of Some u \<Rightarrow> (if u \<noteq> [] then Some u else None)
                                              | None \<Rightarrow> None)\<rparr>)\<rparr>"

definition user_agent :: "('j, 'x) environment \<Rightarrow> Connection \<Rightarrow> string" where
  "user_agent env c =
     (let user_agent_suffix = join '' '' (map (\<lambda>x. ''('' @ x @ '')'') (ua c))
      in case driver c of
           Some name \<Rightarrow> ''libcloud/'' @ libcloud_version env @ '' ('' @ name @ '') '' @ user_agent_suffix
         | None \<Rightarrow> ''libcloud/'' @ libcloud_version env @ '' '' @ user_agent_suffix)"

definition morph_action_hook ::
  "bool \<Rightarrow> (string \<Rightarrow> string \<Rightarrow> string) \<Rightarrow> string \<Rightarrow> string \<Rightarrow> string" where
  "morph_action_hook allow_double_slashes uj req_path act =
     (if allow_double_slashes then req_path @ act
      else
        (let url = uj (rstrip_slash (lstrip_slash req_path) @ ''/'') (lstrip_slash act)
         in if \<not> startswith url ''/'' then ''/'' @ url else url))"

text \<open>Lines 639 to 645 of \<^verbatim>\<open>request\<close>: the URL from the action and the parameters.\<close>

definition build_url :: "(dict \<Rightarrow> string) \<Rightarrow> string \<Rightarrow> dict \<Rightarrow> string" where
  "build_url enc act params =
     (if params \<noteq> [] then
        (if CHR ''?'' \<in> set act then join ''&'' [act, enc params]
         else join ''?'' [act, enc params])
      else act)"

text \<open>Lines 596 to 604: the environment variable or the module flag, unless the call
  says otherwise.\<close>

definition retry_enabled :: "('j, 'x) environment \<Rightarrow> bool option \<Rightarrow> bool" where
  "retry_enabled env retry_failed =
     (case retry_failed of
        Some b \<Rightarrow> b
      | None \<Rightarrow>
          (case environ_LIBCLOUD_RETRY_FAILED_HTTP_REQUESTS env of
             Some v \<Rightarrow> (if v \<noteq> [] then True else RETRY_FAILED_HTTP_REQUESTS env)
           | None \<Rightarrow> RETRY_FAILED_HTTP_REQUESTS env))"

definition friendly_message :: "string \<Rightarrow> string \<Rightarrow> string \<Rightarrow> string" where
  "friendly_message message cls h =
     message @ ''. Perhaps '' @ [CHR 0x22] @ ''host'' @ [CHR 0x22] @ '' Connection class attribute (''
       @ cls @ ''.connection) is set to an invalid, non-hostname value ('' @ h @ '')?''"

definition retryable_request ::
  "('j, 'x) parsers \<Rightarrow> string \<Rightarrow> string option \<Rightarrow> dict \<Rightarrow> string \<Rightarrow> bool \<Rightarrow> bool \<Rightarrow>
     ('j, 'x) operation" where
  "retryable_request ps url dat hdrs meth raw stream c =
     (case connection c of
        None \<Rightarrow> (Inl AssertionError, c)
      | Some tr \<Rightarrow>
          (case transport_request tr
                  \<lparr>sent_method = meth, sent_url = url, sent_body = dat, sent_headers = hdrs,
                   sent_raw = raw, sent_stream = stream\<rparr> of
             (Raises_gaierror errno message, tr1) \<Rightarrow>
               (if errno = Some (- 5) then
                  (Inl (Gaierror None (friendly_message message (class_name c) (host c))),
                   c\<lparr>connection := Some tr1\<rparr>)
                else (Inl (Gaierror errno message), reset_context (c\<lparr>connection := Some tr1\<rparr>)))
           | (Raises_SSLError message, tr1) \<Rightarrow>
               (Inl (SSLError message), reset_context (c\<lparr>connection := Some tr1\<rparr>))
           | (Raises_other message, tr1) \<Rightarrow>
               (Inl (OtherException message), c\<lparr>connection := Some tr1\<rparr>)
           | (Responds _, tr1) \<Rightarrow>
               (case getresponse tr1 of
                  (resp, tr2) \<Rightarrow>
                    (if raw then
                       (case RawResponse_init (lowercase_keys ps) resp tr2 of
                          (Inl e, tr3) \<Rightarrow> (Inl e, reset_context (c\<lparr>connection := Some tr3\<rparr>))
                        | (Inr rr, tr3) \<Rightarrow>
                            (Inr (Raw rr), reset_context (c\<lparr>connection := Some tr3\<rparr>)))
                     else
                       (case fst (Response_init ps (driver c) (responseCls c) resp) of
                          Inl e \<Rightarrow> (Inl e, reset_context (c\<lparr>connection := Some tr2\<rparr>))
                        | Inr r \<Rightarrow>
                            (Inr (Buffered r), reset_context (c\<lparr>connection := Some tr2\<rparr>)))))))"

text \<open>The arguments of \<^verbatim>\<open>request\<close>; \<open>arg_params\<close> and \<open>arg_headers\<close> are references to the
  caller's mappings, or \<^verbatim>\<open>None\<close>.\<close>

record request_args =
  arg_action :: string
  arg_params :: "nat option"
  arg_data :: "string option"
  arg_headers :: "nat option"
  arg_method :: string
  arg_raw :: bool
  arg_stream :: bool
  arg_retry_failed :: "bool option"

text \<open>Lines 586 to 637: the copies of the caller's mappings and everything that is written
  to them, given the hooks, the cache-busting value and the user agent. The result is the
  heap with the references of the two copies.\<close>

definition prepare_mappings ::
  "hook_methods \<Rightarrow> string \<Rightarrow> string \<Rightarrow> Connection \<Rightarrow> request_args \<Rightarrow> heap \<Rightarrow>
     nat \<times> nat \<times> heap" where
  "prepare_mappings hk cache_busting_value agent c args h =
     (let (params, h) = (case arg_params args of None \<Rightarrow> alloc h [] | Some a \<Rightarrow> alloc h (h ! a));
          (headers, h) = (case arg_headers args of None \<Rightarrow> alloc h [] | Some a \<Rightarrow> alloc h (h ! a));
          h = h[params := add_default_params hk (h ! params)];
          h = (if cache_busting c \<and> arg_method args = ''GET''
               then h[params := dict_update (h ! params) ''cache-busting'' cache_busting_value]
               else h);
          h = h[headers := add_default_headers hk (h ! headers)];
          h = h[headers := dict_update (h ! headers) ''User-Agent'' agent];
          h = h[headers := dict_update (h ! headers) ''Accept-Encoding'' ''gzip,deflate''];
          h = (if port c \<notin> {80, 443}
               then h[headers := dict_update (h ! headers) ''Host'' (host c @ '':'' @ str_int (port c))]
               else h[headers := dict_update (h ! headers) ''Host'' (host c)]);
          (ps, hs) = pre_connect_hook hk (h ! params) (h ! headers);
          h = h[params := ps];
          h = h[headers := hs]
      in (params, headers, h))"

definition request ::
  "('j, 'x) environment \<Rightarrow> request_args \<Rightarrow> Connection \<times> heap \<Rightarrow>
     (('j, 'x) error + ('j, 'x) any_response) \<times> Connection \<times> heap" where
  "request env args st =
     (case st of (c, h) \<Rightarrow>
        (let act = morph_action_hook (ALLOW_PATH_DOUBLE_SLASHES env) (urljoin env)
                     (request_path c) (arg_action args);
             c = c\<lparr>action := Some act, conn_method := Some (arg_method args), data := arg_data args\<rparr>;
             (params, headers, h) = prepare_mappings (hooks env) (urandom_hex env) (user_agent env c) c args h;
             dat = (case arg_data args of
                      Some d \<Rightarrow> (if d \<noteq> [] then Some (encode_data (hooks env) d) else Some d)
                    | None \<Rightarrow> None);
             url = build_url (urlencode env) act (h ! params);
             c = (if connection c = None then connect env c else c);
             request_to_be_executed =
               retryable_request (format_parsers env) url dat (h ! headers) (arg_method args) (arg_raw args)
                 (arg_stream args);
             request_to_be_executed =
               (if retry_enabled env (arg_retry_failed args)
                then retryCls env (retry_delay c) (timeout c) (backoff c) request_to_be_executed
                else request_to_be_executed)
         in case request_to_be_executed c of (result, c) \<Rightarrow> (result, c, h)))"

section \<open>The polling connection\<close>













section \<open>Concrete inputs\<close>

text \<open>A JSON parser that accepts \<^verbatim>\<open>null\<close> alone, and a server error with an HTML body.\<close>

definition strict_json :: "(unit, unit) parsers" where
  "strict_json = \<lparr>json_loads = (\<lambda>s. if s = ''null'' then Some () else None),
                  ET_XML = (\<lambda>i. XmlException), lowercase_keys = (\<lambda>d. d)\<rparr>"

definition html_500 :: transport_response where
  "html_500 = \<lparr>response_headers = [], response_reason = ''Internal Server Error'',
               response_status_code = 500, response_text = Some ''<html>'',
               response_content = ''<html>''\<rparr>"

text \<open>A transport whose open response is a success, and one whose host name does not
  resolve (\<^verbatim>\<open>socket.gaierror\<close> with \<^verbatim>\<open>errno\<close> -5).\<close>

definition ok_200 :: transport_response where
  "ok_200 = \<lparr>response_headers = [], response_reason = ''OK'', response_status_code = 200,
             response_text = Some ''data'', response_content = ''data''\<rparr>"

definition tr_ok :: transport where
  "tr_ok = \<lparr>script = (\<lambda>n. Responds ok_200), sent = [], last_response = Some ok_200, fetches = 0\<rparr>"

definition unresolvable :: transport where
  "unresolvable =
     \<lparr>script = (\<lambda>n. Raises_gaierror (Some (- 5)) ''[Errno -5] No address associated with hostname''),
      sent = [], last_response = None, fetches = 0\<rparr>"

text \<open>An environment with both flags off and no environment variable, the hooks of
  \<^verbatim>\<open>Connection\<close>, a retry coordinator that runs the operation as it is, and, in place of
  \<^verbatim>\<open>urlencode\<close>, the pairs joined as they are.\<close>

definition plain_env :: "(unit, unit) environment" where
  "plain_env =
     \<lparr>environ_LIBCLOUD_RETRY_FAILED_HTTP_REQUESTS = None,
      RETRY_FAILED_HTTP_REQUESTS = False,
      ALLOW_PATH_DOUBLE_SLASHES = False,
      urljoin = urljoin_path,
      urlencode = (\<lambda>d. join ''&'' (map (\<lambda>(k, v). k @ ''='' @ v) d)),
      libcloud_version = ''3.0.0'',
      urandom_hex = ''0011223344556677'',
      conn_class = (\<lambda>kw. tr_ok),
      format_parsers = strict_json,
      hooks = Connection_hooks,
      retryCls = (\<lambda>delay tmo bo operation. operation)\<rparr>"

text \<open>A connection that carries a context, and a call that lists servers.\<close>

definition conn0 :: Connection where
  "conn0 =
     \<lparr>class_name = ''Connection'',
      responseCls = \<lparr>cls_format = PlainFormat, parse_zero_length_body = False\<rparr>,
      connection = Some unresolvable, host = ''127.0.0.1'', port = 443, timeout = None,
      secure = 1, driver = None, action = None, conn_method = None, data = None,
      cache_busting = False, backoff = None, retry_delay = None, proxy_url = None, ua = [],
      conn_context = [(''job'', ''42'')], request_path = ''''\<rparr>"

definition list_servers :: request_args where
  "list_servers =
     \<lparr>arg_action = ''/servers'', arg_params = None, arg_data = None, arg_headers = None,
      arg_method = ''GET'', arg_raw = False, arg_stream = False, arg_retry_failed = None\<rparr>"






section \<open>Response classification and parsing\<close>

text \<open>
  Claim C6. A JSON or XML response whose body has zero length: with
  \<^verbatim>\<open>parse_zero_length_body\<close> false, \<^verbatim>\<open>parse_body\<close> returns the empty body itself, no parsed
  object, and the list of parser invocations is empty; with it true, the parser is invoked
  on the empty input (\<^verbatim>\<open>ET.XML\<close> a second time, on the bytes, when it raised
  \<^verbatim>\<open>ValueError\<close>).
\<close>

theorem parse_body_zero_length:
  "parse_body ps drv \<lparr>cls_format = JsonFormat, parse_zero_length_body = False\<rparr> '''' = (Inr (Body ''''), [])
   \<and> parse_body ps drv \<lparr>cls_format = XmlFormat, parse_zero_length_body = False\<rparr> '''' = (Inr (Body ''''), [])
   \<and> parse_body ps drv \<lparr>cls_format = JsonFormat, parse_zero_length_body = True\<rparr> '''' =
        ((case json_loads ps '''' of
            None \<Rightarrow> Inl (MalformedResponseError ''Failed to parse JSON'' '''' drv)
          | Some j \<Rightarrow> Inr (JsonObject j)),
         [Call_json_loads ''''])
   \<and> snd (parse_body ps drv \<lparr>cls_format = XmlFormat, parse_zero_length_body = True\<rparr> '''') =
        Call_ET_XML (XmlStr '''') #
          (if ET_XML ps (XmlStr '''') = XmlValueError then [Call_ET_XML (XmlBytes '''')] else [])"
  by (simp add: parse_body_def JsonResponse_parse_body_def XmlResponse_parse_body_def
      split: option.split xml_result.split)

lemma success_iff: "success st \<longleftrightarrow> st = 200 \<or> st = 201 \<or> st = 202"
  by (auto simp: success_def)

lemma parse_error_Inl:
  "fst (parse_error ps drv cls b) = Inl e \<Longrightarrow> \<exists>msg. e = MalformedResponseError msg b drv"
  by (auto simp: parse_error_def parse_body_def Response_parse_body_def JsonResponse_parse_body_def
      XmlResponse_parse_body_def split: format.splits option.splits xml_result.splits if_splits)

text \<open>
  Claim C2, amended. A status is a success exactly when it is 200, 201 or 202. For any other
  status the construction of a buffered response never returns a response: it raises what
  \<^verbatim>\<open>exception_from_message\<close> builds from the status, the parsed error body and the
  lower-cased headers whenever \<^verbatim>\<open>parse_error\<close> returns (always for the plain class), and
  the malformed-response error of the parser when \<^verbatim>\<open>parse_error\<close> raises (a JSON or XML
  class whose error body does not parse).
\<close>

theorem Response_init_status:
  "(success (response_status_code r) \<longleftrightarrow> response_status_code r \<in> {200, 201, 202})
   \<and> (response_status_code r \<notin> {200, 201, 202} \<longrightarrow>
        (\<forall>resp. fst (Response_init ps drv cls (Some r)) \<noteq> Inr resp)
        \<and> fst (Response_init ps drv cls (Some r)) =
            (case fst (parse_error ps drv cls
                        (case response_text r of Some t \<Rightarrow> py_strip t | None \<Rightarrow> '''')) of
               Inl e \<Rightarrow> Inl e
             | Inr m \<Rightarrow> Inl (ExceptionFromMessage (response_status_code r) m
                               (lowercase_keys ps (response_headers r))))
        \<and> (\<forall>e. fst (parse_error ps drv cls
                        (case response_text r of Some t \<Rightarrow> py_strip t | None \<Rightarrow> '''')) = Inl e \<longrightarrow>
                 (\<exists>msg. e = MalformedResponseError msg
                        (case response_text r of Some t \<Rightarrow> py_strip t | None \<Rightarrow> '''') drv))
        \<and> (cls_format cls = PlainFormat \<longrightarrow>
              fst (Response_init ps drv cls (Some r)) =
                Inl (ExceptionFromMessage (response_status_code r)
                      (Body (case response_text r of Some t \<Rightarrow> py_strip t | None \<Rightarrow> ''''))
                      (lowercase_keys ps (response_headers r)))))"
proof -
  have a: "success (response_status_code r) \<longleftrightarrow> response_status_code r \<in> {200, 201, 202}"
    by (simp add: success_iff)
  have b: "\<not> success (response_status_code r) \<Longrightarrow>
      fst (Response_init ps drv cls (Some r)) =
            (case fst (parse_error ps drv cls
                        (case response_text r of Some t \<Rightarrow> py_strip t | None \<Rightarrow> '''')) of
               Inl e \<Rightarrow> Inl e
             | Inr m \<Rightarrow> Inl (ExceptionFromMessage (response_status_code r) m
                               (lowercase_keys ps (response_headers r))))"
    by (simp add: Response_init_def Let_def split: prod.split sum.split)
  have c: "cls_format cls = PlainFormat \<Longrightarrow> fst (parse_error ps drv cls b) = Inr (Body b)" for b
    by (simp add: parse_error_def)
  show ?thesis
    using a b c parse_error_Inl[of ps drv cls]
    by (auto split: sum.splits)
qed

lemma strip_html: "py_strip ''<html>'' = ''<html>''"
  by (simp add: py_strip_def py_isspace_def)

text \<open>
  The claim as stated fails: a JSON response with status 500 and an HTML body raises the
  malformed-response error, not the mapped error.
\<close>

theorem Response_init_malformed_error_body:
  "\<not> (\<forall>(ps :: (unit, unit) parsers) drv cls r.
         response_status_code r \<notin> {200, 201, 202} \<longrightarrow>
         (\<exists>m. fst (Response_init ps drv cls (Some r)) =
                Inl (ExceptionFromMessage (response_status_code r) m
                      (lowercase_keys ps (response_headers r)))))"
proof
  assume h: "\<forall>(ps :: (unit, unit) parsers) drv cls r.
         response_status_code r \<notin> {200, 201, 202} \<longrightarrow>
         (\<exists>m. fst (Response_init ps drv cls (Some r)) =
                Inl (ExceptionFromMessage (response_status_code r) m
                      (lowercase_keys ps (response_headers r))))"
  have "fst (Response_init strict_json None \<lparr>cls_format = JsonFormat, parse_zero_length_body = False\<rparr>
               (Some html_500)) = Inl (MalformedResponseError ''Failed to parse JSON'' ''<html>'' None)"
    by (simp add: Response_init_def strict_json_def html_500_def success_def parse_error_def
        parse_body_def JsonResponse_parse_body_def strip_html Let_def)
  moreover have "response_status_code html_500 \<notin> {200, 201, 202}"
    by (simp add: html_500_def)
  ultimately show False
    using h[rule_format, of html_500 strict_json None
        "\<lparr>cls_format = JsonFormat, parse_zero_length_body = False\<rparr>"]
    by simp
qed

theorem Response_init_status_witness:
  "response_status_code html_500 \<notin> {200, 201, 202}
   \<and> \<not> success (response_status_code html_500)
   \<and> fst (Response_init strict_json None \<lparr>cls_format = PlainFormat, parse_zero_length_body = False\<rparr>
            (Some html_500)) = Inl (ExceptionFromMessage 500 (Body ''<html>'') [])
   \<and> fst (Response_init strict_json None \<lparr>cls_format = JsonFormat, parse_zero_length_body = False\<rparr>
            (Some html_500)) = Inl (MalformedResponseError ''Failed to parse JSON'' ''<html>'' None)"
proof -
  have h: "response_status_code html_500 \<notin> {200, 201, 202}"
    by (simp add: html_500_def)
  have j: "fst (parse_error strict_json None \<lparr>cls_format = JsonFormat, parse_zero_length_body = False\<rparr>
             ''<html>'') = Inl (MalformedResponseError ''Failed to parse JSON'' ''<html>'' None)"
    by (simp add: parse_error_def parse_body_def JsonResponse_parse_body_def strict_json_def)
  show ?thesis
    using h j
      Response_init_status[of html_500 strict_json None
        "\<lparr>cls_format = PlainFormat, parse_zero_length_body = False\<rparr>"]
      Response_init_status[of html_500 strict_json None
        "\<lparr>cls_format = JsonFormat, parse_zero_length_body = False\<rparr>"]
    by (simp add: html_500_def strict_json_def strip_html parse_error_def success_def)
qed

section \<open>The lazy body of a raw response\<close>

lemma response_first:
  "priv_response rr = None \<Longrightarrow>
   (RawResponse_response rr tr :: (('j, 'x) error + proxy) \<times> raw_response \<times> transport) =
     ((if \<not> success (raw_status rr) \<and> last_response tr = None then Inl AttributeError
       else Inr (HttpLibResponseProxy (last_response tr))),
      rr\<lparr>priv_response := Some (HttpLibResponseProxy (last_response tr))\<rparr>,
      tr\<lparr>fetches := Suc (fetches tr)\<rparr>)"
  by (cases "last_response tr")
     (simp_all add: RawResponse_response_def getresponse_def proxy_body_def Let_def)

lemma response_cached:
  "priv_response rr = Some p \<Longrightarrow> RawResponse_response rr tr = (Inr p, rr, tr)"
  by (simp add: RawResponse_response_def)

lemma read_one_cached:
  assumes "cached rr p"
  shows "\<exists>rr'. (read_one a rr tr :: (('j, 'x) error + string) \<times> raw_response \<times> transport)
                 = (lazy_value p a, rr', tr) \<and> cached rr' p"
proof (cases a)
  case ReadBody
  then show ?thesis using assms
    by (simp add: read_one_def lazy_value_def RawResponse_body_def response_cached cached_def)
next
  case ReadReason
  obtain x where p: "p = HttpLibResponseProxy x" by (cases p)
  show ?thesis
  proof (cases x)
    case None
    then show ?thesis using assms ReadReason p
      by (simp add: read_one_def lazy_value_def RawResponse_reason_def response_cached cached_def
          proxy_reason_def)
  next
    case (Some r)
    then show ?thesis using assms ReadReason p
      by (auto simp: read_one_def lazy_value_def RawResponse_reason_def response_cached cached_def
          proxy_reason_def)
  qed
qed

lemma read_one_first:
  assumes "priv_response rr = None" "priv_reason rr = None"
  shows "\<exists>rr'. (read_one a rr tr :: (('j, 'x) error + string) \<times> raw_response \<times> transport)
                 = (lazy_value (HttpLibResponseProxy (last_response tr)) a, rr',
                    tr\<lparr>fetches := Suc (fetches tr)\<rparr>)
               \<and> cached rr' (HttpLibResponseProxy (last_response tr))
               \<and> raw_status rr' = raw_status rr"
proof (cases "last_response tr")
  case None
  then show ?thesis using assms
    by (cases a)
       (simp_all add: read_one_def lazy_value_def RawResponse_body_def RawResponse_reason_def
          response_first cached_def proxy_reason_def proxy_body_def)
next
  case (Some r)
  then show ?thesis using assms
    by (cases a)
       (simp_all add: read_one_def lazy_value_def RawResponse_body_def RawResponse_reason_def
          response_first cached_def proxy_reason_def proxy_body_def)
qed

lemma read_all_cached:
  "cached rr p \<Longrightarrow>
   \<exists>rr'. (read_all as rr tr :: (('j, 'x) error + string) list \<times> raw_response \<times> transport) =
           (map (lazy_value p) as, rr', tr) \<and> cached rr' p"
proof (induction as arbitrary: rr)
  case Nil
  then show ?case by simp
next
  case (Cons a as)
  from read_one_cached[OF Cons.prems, of a tr, where 'j = 'j and 'x = 'x] obtain rr1 where
    r1: "(read_one a rr tr :: (('j, 'x) error + string) \<times> raw_response \<times> transport)
           = (lazy_value p a, rr1, tr)" and c1: "cached rr1 p" by blast
  from Cons.IH[OF c1] obtain rr2 where
    r2: "(read_all as rr1 tr :: (('j, 'x) error + string) list \<times> raw_response \<times> transport) =
           (map (lazy_value p) as, rr2, tr)" and c2: "cached rr2 p" by blast
  show ?case using r1 r2 c2 by simp
qed

lemma init_cases:
  assumes "(RawResponse_init lk resp tr :: (('j, 'x) error + raw_response) \<times> transport) = (Inr rr, tr0)"
  shows "(priv_response rr = None \<and> priv_reason rr = None \<and> tr0 = tr \<and> success (raw_status rr))
       \<or> (cached rr (HttpLibResponseProxy (last_response tr)) \<and> tr0 = tr\<lparr>fetches := Suc (fetches tr)\<rparr>
           \<and> \<not> success (raw_status rr))"
proof -
  define rr0 where "rr0 = (case resp of
                  None \<Rightarrow> \<lparr>raw_headers = [], raw_error = None, raw_status = 200,
                           priv_response = None, priv_reason = None\<rparr>
                | Some r \<Rightarrow> \<lparr>raw_headers = lk (response_headers r),
                             raw_error = Some (response_reason r),
                             raw_status = response_status_code r,
                             priv_response = None, priv_reason = None\<rparr>)"
  have f: "priv_response rr0 = None" "priv_reason rr0 = None"
    by (simp_all add: rr0_def split: option.split)
  show ?thesis
  proof (cases "success (raw_status rr0)")
    case True
    then show ?thesis using assms f
      by (simp add: RawResponse_init_def Let_def rr0_def[symmetric])
  next
    case False
    from read_one_first[OF f, of ReadBody tr, where 'j = 'j and 'x = 'x] obtain rr' where
      b: "(RawResponse_body rr0 tr :: (('j, 'x) error + string) \<times> raw_response \<times> transport) =
           (proxy_body (HttpLibResponseProxy (last_response tr)), rr',
            tr\<lparr>fetches := Suc (fetches tr)\<rparr>)"
         "cached rr' (HttpLibResponseProxy (last_response tr))"
         "raw_status rr' = raw_status rr0"
      by (auto simp: read_one_def lazy_value_def)
    show ?thesis using assms False b
      by (auto simp: RawResponse_init_def Let_def rr0_def[symmetric] split: sum.splits)
  qed
qed

text \<open>
  Claim C5. A raw response is constructed, and the caller then reads the lazy body and the
  lazy reason, any number of times in any order, at least once. Every read of the body
  returns the body of the response the transport holds, every read of the reason its
  reason, and the transport's \<^verbatim>\<open>getresponse()\<close> is called exactly once: by the first read
  when the status is a success, and by the constructor (whose \<^verbatim>\<open>parse_error()\<close> reads the
  body) when it is not. Nothing else of the transport changes.
\<close>

theorem raw_response_fetched_once:
  assumes "(RawResponse_init lk resp tr :: (('j, 'x) error + raw_response) \<times> transport) = (Inr rr, tr0)"
    and "(read_all (a # as) rr tr0 :: (('j, 'x) error + string) list \<times> raw_response \<times> transport)
           = (vals, rr', tr')"
  shows "vals = map (lazy_value (HttpLibResponseProxy (last_response tr))) (a # as)
       \<and> tr' = tr\<lparr>fetches := Suc (fetches tr)\<rparr>
       \<and> (if success (raw_status rr) then tr0 = tr else tr0 = tr')"
proof -
  let ?p = "HttpLibResponseProxy (last_response tr)"
  let ?tr = "tr\<lparr>fetches := Suc (fetches tr)\<rparr>"
  from init_cases[OF assms(1)] show ?thesis
  proof
    assume fresh: "priv_response rr = None \<and> priv_reason rr = None \<and> tr0 = tr \<and> success (raw_status rr)"
    have f1: "priv_response rr = None" and f2: "priv_reason rr = None" using fresh by simp_all
    from read_one_first[OF f1 f2, of a tr, where 'j = 'j and 'x = 'x] obtain rr1 where
      s1: "(read_one a rr tr :: (('j, 'x) error + string) \<times> raw_response \<times> transport)
             = (lazy_value ?p a, rr1, ?tr)" and c1: "cached rr1 ?p" by blast
    from read_all_cached[OF c1, of as ?tr, where 'j = 'j and 'x = 'x] obtain rr2 where
      "(read_all as rr1 ?tr :: (('j, 'x) error + string) list \<times> raw_response \<times> transport) =
         (map (lazy_value ?p) as, rr2, ?tr)" by blast
    then show ?thesis using assms(2) s1 fresh by simp
  next
    assume c: "cached rr ?p \<and> tr0 = ?tr \<and> \<not> success (raw_status rr)"
    from read_all_cached[of rr ?p "a # as" tr0, where 'j = 'j and 'x = 'x] c obtain rr2 where
      "(read_all (a # as) rr tr0 :: (('j, 'x) error + string) list \<times> raw_response \<times> transport) =
         (map (lazy_value ?p) (a # as), rr2, tr0)"
      by blast
    then show ?thesis using assms(2) c by simp
  qed
qed

theorem raw_response_fetched_once_witness:
  "\<exists>rr tr0 vals rr' tr'.
      (RawResponse_init (\<lambda>d. d) (Some ok_200) tr_ok :: ((unit, unit) error + raw_response) \<times> transport)
        = (Inr rr, tr0)
    \<and> (read_all [ReadBody, ReadBody, ReadReason] rr tr0
          :: ((unit, unit) error + string) list \<times> raw_response \<times> transport) = (vals, rr', tr')
    \<and> vals = [Inr ''data'', Inr ''data'', Inr ''OK'']
    \<and> fetches tr' = 1 \<and> tr0 = tr_ok"
proof -
  obtain rr tr0 where
    i: "(RawResponse_init (\<lambda>d. d) (Some ok_200) tr_ok :: ((unit, unit) error + raw_response) \<times> transport)
          = (Inr rr, tr0)"
    by (simp add: RawResponse_init_def ok_200_def success_def)
  obtain vals rr' tr' where
    r: "(read_all [ReadBody, ReadBody, ReadReason] rr tr0
          :: ((unit, unit) error + string) list \<times> raw_response \<times> transport) = (vals, rr', tr')"
    by (metis prod_cases3)
  have s: "success (raw_status rr)"
    using i by (auto simp: RawResponse_init_def ok_200_def success_def)
  from raw_response_fetched_once[OF i r] s
  have "vals = [Inr ''data'', Inr ''data'', Inr ''OK''] \<and> fetches tr' = 1 \<and> tr0 = tr_ok"
    by (simp add: lazy_value_def proxy_body_def proxy_reason_def tr_ok_def ok_200_def)
  with i r show ?thesis by blast
qed

section \<open>The request pipeline\<close>

lemma RawResponse_init_transport:
  "(RawResponse_init lk resp tr :: (('j, 'x) error + raw_response) \<times> transport) = (x, tr') \<Longrightarrow>
   sent tr' = sent tr \<and> script tr' = script tr \<and> last_response tr' = last_response tr"
  by (auto simp: RawResponse_init_def RawResponse_body_def RawResponse_response_def getresponse_def
      Let_def split: if_splits sum.splits option.splits prod.splits)

lemma retryable_request_sent:
  assumes "connection c = Some tr"
    and "retryable_request ps url dat hdrs meth raw stream c = (res, c')"
  shows "\<exists>tr'. connection c' = Some tr' \<and> script tr' = script tr \<and>
           sent tr' = sent tr @ [\<lparr>sent_method = meth, sent_url = url, sent_body = dat,
                                  sent_headers = hdrs, sent_raw = raw, sent_stream = stream\<rparr>]"
proof (cases "script tr (length (sent tr))")
  case (Responds r)
  show ?thesis
  proof (cases raw)
    case True
    obtain x tr3 where i: "(RawResponse_init (lowercase_keys ps) (Some r)
        (tr\<lparr>sent := sent tr @ [\<lparr>sent_method = meth, sent_url = url, sent_body = dat,
                                  sent_headers = hdrs, sent_raw = raw, sent_stream = stream\<rparr>],
            last_response := Some r, fetches := Suc (fetches tr)\<rparr>)
        :: (('a, 'b) error + raw_response) \<times> transport) = (x, tr3)"
      by (cases "(RawResponse_init (lowercase_keys ps) (Some r)
        (tr\<lparr>sent := sent tr @ [\<lparr>sent_method = meth, sent_url = url, sent_body = dat,
                                  sent_headers = hdrs, sent_raw = raw, sent_stream = stream\<rparr>],
            last_response := Some r, fetches := Suc (fetches tr)\<rparr>)
        :: (('a, 'b) error + raw_response) \<times> transport)") auto
    from RawResponse_init_transport[OF i] show ?thesis
      using assms Responds True i
      by (auto simp: retryable_request_def transport_request_def getresponse_def Let_def
          reset_context_def split: sum.splits)
  next
    case False
    then show ?thesis using assms Responds
      by (auto simp: retryable_request_def transport_request_def getresponse_def Let_def
          reset_context_def split: sum.splits)
  qed
next
  case (Raises_gaierror errno msg)
  then show ?thesis using assms
    by (auto simp: retryable_request_def transport_request_def Let_def reset_context_def
        split: if_splits)
next
  case (Raises_SSLError msg)
  then show ?thesis using assms
    by (auto simp: retryable_request_def transport_request_def Let_def reset_context_def)
next
  case (Raises_other msg)
  then show ?thesis using assms
    by (auto simp: retryable_request_def transport_request_def Let_def reset_context_def)
qed


lemma alloc_simps: "fst (alloc h d) = length h" "snd (alloc h d) = h @ [d]"
  by (simp_all add: alloc_def)

lemma prepare_mappings_frame:
  assumes "prepare_mappings hk cbv agent c args h = (p, hr, h')"
  shows "p = length h \<and> hr = Suc (length h) \<and> length h' = Suc (Suc (length h)) \<and>
         take (length h) h' = h"
proof -
  obtain p0 h1 where a1: "(case arg_params args of None \<Rightarrow> alloc h [] | Some a \<Rightarrow> alloc h (h ! a)) = (p0, h1)"
    by (cases "(case arg_params args of None \<Rightarrow> alloc h [] | Some a \<Rightarrow> alloc h (h ! a))") auto
  obtain hd0 h2 where a2: "(case arg_headers args of None \<Rightarrow> alloc h1 [] | Some a \<Rightarrow> alloc h1 (h1 ! a)) = (hd0, h2)"
    by (cases "(case arg_headers args of None \<Rightarrow> alloc h1 [] | Some a \<Rightarrow> alloc h1 (h1 ! a))") auto
  have p0: "p0 = length h" and h1: "\<exists>d. h1 = h @ [d]"
    using a1 by (auto simp: alloc_def split: option.splits)
  have hd0: "hd0 = Suc (length h)" and h2: "\<exists>d. h2 = h1 @ [d]"
    using a2 h1 by (auto simp: alloc_def split: option.splits)
  from h1 h2 obtain d1 d2 where h2': "h2 = h @ [d1, d2]" by auto
  have upd: "length (g[p0 := x]) = length g" "length (g[hd0 := x]) = length g"
            "length g = Suc (Suc (length h)) \<Longrightarrow> take (length h) g = h \<Longrightarrow> take (length h) (g[p0 := x]) = h"
            "length g = Suc (Suc (length h)) \<Longrightarrow> take (length h) g = h \<Longrightarrow> take (length h) (g[hd0 := x]) = h"
    for g :: heap and x
    by (simp_all add: p0 hd0)
  have base: "length h2 = Suc (Suc (length h))" "take (length h) h2 = h"
    by (simp_all add: h2')
  show ?thesis
    using assms a1 a2 p0 hd0 base
    by (auto simp: prepare_mappings_def Let_def split: prod.splits if_splits)
qed

text \<open>
  Claim C9. Whatever the hooks do to the mappings they are handed, and whatever the outcome
  of the call, every object that existed before the call, the caller's \<^verbatim>\<open>params\<close> and
  \<^verbatim>\<open>headers\<close> among them, is unchanged after it: \<^verbatim>\<open>request\<close> writes to the two copies
  it allocates and to nothing else.
\<close>

theorem request_leaves_callers_mappings:
  "take (length h) (snd (snd (request env args (c, h)))) = h"
proof -
  let ?act = "morph_action_hook (ALLOW_PATH_DOUBLE_SLASHES env) (urljoin env) (request_path c) (arg_action args)"
  let ?c = "c\<lparr>action := Some ?act, conn_method := Some (arg_method args), data := arg_data args\<rparr>"
  obtain p hr h' where pm: "prepare_mappings (hooks env) (urandom_hex env) (user_agent env ?c) ?c args h = (p, hr, h')"
    by (metis prod_cases3)
  from prepare_mappings_frame[OF pm] have "take (length h) h' = h" by simp
  then show ?thesis
    using pm by (simp add: request_def Let_def split: prod.splits)
qed

lemma request_unfold:
  assumes "prepare_mappings (hooks env) (urandom_hex env)
             (user_agent env (c\<lparr>action := Some (morph_action_hook (ALLOW_PATH_DOUBLE_SLASHES env) (urljoin env) (request_path c) (arg_action args)),
                 conn_method := Some (arg_method args), data := arg_data args\<rparr>))
             (c\<lparr>action := Some (morph_action_hook (ALLOW_PATH_DOUBLE_SLASHES env) (urljoin env) (request_path c) (arg_action args)),
                 conn_method := Some (arg_method args), data := arg_data args\<rparr>) args h = (p, hr, h')"
  shows "request env args (c, h) =
     (let act = morph_action_hook (ALLOW_PATH_DOUBLE_SLASHES env) (urljoin env) (request_path c) (arg_action args);
          c1 = c\<lparr>action := Some act, conn_method := Some (arg_method args), data := arg_data args\<rparr>;
          c2 = (if connection c1 = None then connect env c1 else c1);
          operation = retryable_request (format_parsers env) (build_url (urlencode env) act (h' ! p))
               (case arg_data args of
                      Some d \<Rightarrow> (if d \<noteq> [] then Some (encode_data (hooks env) d) else Some d)
                    | None \<Rightarrow> None)
               (h' ! hr) (arg_method args) (arg_raw args) (arg_stream args)
      in case (if retry_enabled env (arg_retry_failed args)
               then retryCls env (retry_delay c2) (timeout c2) (backoff c2) operation
               else operation) c2 of (result, c3) \<Rightarrow> (result, c3, h'))"
  using assms by (simp add: request_def Let_def)

lemma connect_connection: "connection (connect env c) \<noteq> None"
  by (simp add: connect_def)




lemma request_gaierror_no_address:
  assumes off: "\<not> retry_enabled env (arg_retry_failed args)"
    and tr: "connection c = Some tr"
    and gai: "script tr (length (sent tr)) = Raises_gaierror (Some (- 5)) msg"
  shows "fst (request env args (c, h)) =
           Inl (Gaierror None (friendly_message msg (class_name c) (host c)))
       \<and> conn_context (fst (snd (request env args (c, h)))) = conn_context c"
proof -
  let ?act = "morph_action_hook (ALLOW_PATH_DOUBLE_SLASHES env) (urljoin env) (request_path c) (arg_action args)"
  let ?c1 = "c\<lparr>action := Some ?act, conn_method := Some (arg_method args), data := arg_data args\<rparr>"
  obtain p hr h' where pm: "prepare_mappings (hooks env) (urandom_hex env) (user_agent env ?c1) ?c1 args h = (p, hr, h')"
    by (metis prod_cases3)
  show ?thesis
    using request_unfold[OF pm] off tr gai
    by (simp add: Let_def retryable_request_def transport_request_def)
qed

lemma retryable_request_resets_context:
  assumes "connection c = Some tr"
    and "\<And>msg. script tr (length (sent tr)) \<noteq> Raises_gaierror (Some (- 5)) msg"
    and "\<And>msg. script tr (length (sent tr)) \<noteq> Raises_other msg"
  shows "conn_context (snd (retryable_request ps url dat hdrs meth raw stream c)) = []"
  using assms
  by (cases "script tr (length (sent tr))")
     (auto simp: retryable_request_def transport_request_def getresponse_def reset_context_def
       Let_def split: prod.splits sum.splits)

text \<open>
  Claim C1 does not hold of the code. A connection carries a context; the host name does
  not resolve and the transport raises \<^verbatim>\<open>socket.gaierror\<close> with \<^verbatim>\<open>errno\<close> -5. \<^verbatim>\<open>request\<close>
  raises the friendlier \<^verbatim>\<open>gaierror\<close> and returns to the caller with the context as it was:
  that branch raises before \<^verbatim>\<open>reset_context()\<close>, which every other handled exit calls
  (\<open>retryable_request_resets_context\<close>).
\<close>

theorem request_gaierror_keeps_context:
  "conn_context conn0 = [(''job'', ''42'')]
   \<and> fst (request plain_env list_servers (conn0, [])) =
       Inl (Gaierror None (friendly_message ''[Errno -5] No address associated with hostname''
                            ''Connection'' ''127.0.0.1''))
   \<and> conn_context (fst (snd (request plain_env list_servers (conn0, [])))) = [(''job'', ''42'')]"
proof -
  have off: "\<not> retry_enabled plain_env (arg_retry_failed list_servers)"
    by (simp add: retry_enabled_def plain_env_def list_servers_def)
  have tr: "connection conn0 = Some unresolvable"
    by (simp add: conn0_def)
  have gai: "script unresolvable (length (sent unresolvable)) =
               Raises_gaierror (Some (- 5)) ''[Errno -5] No address associated with hostname''"
    by (simp add: unresolvable_def)
  from request_gaierror_no_address[OF off tr gai, of "[]"]
  show ?thesis by (simp add: conn0_def)
qed

text \<open>
  Claim C8. With at least one parameter and no \<^verbatim>\<open>?\<close> in the action, the URL is the action,
  one \<^verbatim>\<open>?\<close> and the encoded query, so it has exactly one \<^verbatim>\<open>?\<close> more than the encoded
  query has (none, as \<^verbatim>\<open>urlencode\<close> percent-encodes it); with a \<^verbatim>\<open>?\<close> in the action the
  separator is \<^verbatim>\<open>&\<close>; with no parameter the URL is the action. By
  \<open>request_sends_built_url\<close> this is the URL \<^verbatim>\<open>request\<close> sends.
\<close>

theorem build_url_separator:
  "(params \<noteq> [] \<and> CHR ''?'' \<notin> set act \<longrightarrow>
      build_url enc act params = act @ ''?'' @ enc params
      \<and> count_list (build_url enc act params) (CHR ''?'') = Suc (count_list (enc params) (CHR ''?'')))
   \<and> (params \<noteq> [] \<and> CHR ''?'' \<in> set act \<longrightarrow> build_url enc act params = act @ ''&'' @ enc params)
   \<and> build_url enc act [] = act"
  by (simp add: build_url_def count_list_0_iff)

theorem build_url_separator_witness:
  "build_url (urlencode plain_env) ''/servers'' [(''limit'', ''10'')] = ''/servers?limit=10''
   \<and> count_list (build_url (urlencode plain_env) ''/servers'' [(''limit'', ''10'')]) (CHR ''?'') = 1
   \<and> build_url (urlencode plain_env) ''/servers?all=1'' [(''limit'', ''10'')] = ''/servers?all=1&limit=10''"
  using build_url_separator[of "[(''limit'', ''10'')]" "''/servers''" "urlencode plain_env"]
    build_url_separator[of "[(''limit'', ''10'')]" "''/servers?all=1''" "urlencode plain_env"]
  by (simp add: plain_env_def)

lemma request_sends_built_url:
  assumes off: "\<not> retry_enabled env (arg_retry_failed args)"
  shows "\<exists>tr'. connection (fst (snd (request env args (c, h)))) = Some tr'
           \<and> sent tr' \<noteq> []
           \<and> sent_url (last (sent tr')) =
               build_url (urlencode env)
                 (morph_action_hook (ALLOW_PATH_DOUBLE_SLASHES env) (urljoin env) (request_path c)
                    (arg_action args))
                 (snd (snd (request env args (c, h))) ! length h)"
proof -
  let ?act = "morph_action_hook (ALLOW_PATH_DOUBLE_SLASHES env) (urljoin env) (request_path c) (arg_action args)"
  let ?c1 = "c\<lparr>action := Some ?act, conn_method := Some (arg_method args), data := arg_data args\<rparr>"
  let ?c2 = "if connection ?c1 = None then connect env ?c1 else ?c1"
  obtain p hr h' where pm: "prepare_mappings (hooks env) (urandom_hex env) (user_agent env ?c1) ?c1 args h = (p, hr, h')"
    by (metis prod_cases3)
  let ?op = "retryable_request (format_parsers env) (build_url (urlencode env) ?act (h' ! p))
               (case arg_data args of
                      Some d \<Rightarrow> (if d \<noteq> [] then Some (encode_data (hooks env) d) else Some d)
                    | None \<Rightarrow> None)
               (h' ! hr) (arg_method args) (arg_raw args) (arg_stream args)"
  have r1: "request env args (c, h) = (case ?op ?c2 of (result, c3) \<Rightarrow> (result, c3, h'))"
    using request_unfold[OF pm] off by (simp add: Let_def)
  obtain tr where tr: "connection ?c2 = Some tr"
    using connect_connection[of env ?c1] by (cases "connection ?c1") auto
  obtain res c3 where o: "?op ?c2 = (res, c3)" by (cases "?op ?c2") auto
  from retryable_request_sent[OF tr o] obtain tr' where
    t': "connection c3 = Some tr'"
        "sent tr' = sent tr @ [\<lparr>sent_method = arg_method args,
                 sent_url = build_url (urlencode env) ?act (h' ! p),
                 sent_body = (case arg_data args of
                      Some d \<Rightarrow> (if d \<noteq> [] then Some (encode_data (hooks env) d) else Some d)
                    | None \<Rightarrow> None),
                 sent_headers = h' ! hr, sent_raw = arg_raw args, sent_stream = arg_stream args\<rparr>]"
    by blast
  from prepare_mappings_frame[OF pm] have p: "p = length h" by simp
  show ?thesis using r1 o t' p by simp
qed

section \<open>The path of a request\<close>

lemma split_on_nonempty [simp]: "split_on c s \<noteq> []"
  by (induction s) (auto split: list.splits)

lemma split_on_Cons_other:
  "x \<noteq> c \<Longrightarrow> split_on c (x # xs) = (x # hd (split_on c xs)) # tl (split_on c xs)"
  by (cases "split_on c xs") auto

lemma split_on_append_sep:
  "split_on c (xs @ c # ys) = split_on c xs @ split_on c ys"
proof (induction xs)
  case Nil
  then show ?case by simp
next
  case (Cons x xs)
  then show ?case
    by (cases "split_on c xs") (auto split: list.splits)
qed

lemma split_on_snoc_sep: "split_on c (xs @ [c]) = split_on c xs @ [[]]"
  using split_on_append_sep[of c xs "[]"] by simp

lemma split_on_no_sep: "seg \<in> set (split_on c s) \<Longrightarrow> c \<notin> set seg"
proof (induction s arbitrary: seg)
  case Nil
  then show ?case by simp
next
  case (Cons x xs)
  then show ?case
    by (cases "split_on c xs") (auto split: if_splits)
qed

lemma hd_split_on_empty: "hd (split_on c s) = [] \<longleftrightarrow> s = [] \<or> hd s = c"
  by (cases s) (auto split: list.splits)

lemma split_on_snoc_other:
  "x \<noteq> c \<Longrightarrow>
   split_on c (xs @ [x]) = butlast (split_on c xs) @ [last (split_on c xs) @ [x]]"
proof (induction xs)
  case Nil
  then show ?case by simp
next
  case (Cons a xs)
  show ?case
  proof (cases "split_on c xs")
    case Nil
    then show ?thesis using split_on_nonempty[of c xs] by simp
  next
    case sp: (Cons y ys)
    show ?thesis
    proof (cases ys)
      case Nil
      then show ?thesis using Cons sp by (auto split: list.splits)
    next
      case (Cons z zs)
      then show ?thesis using Cons.IH[OF Cons.prems] Cons.prems sp
        by (auto split: list.splits)
    qed
  qed
qed

lemma last_split_on_empty: "last (split_on c s) = [] \<longleftrightarrow> s = [] \<or> last s = c"
proof (induction s rule: rev_induct)
  case Nil
  then show ?case by simp
next
  case (snoc x xs)
  then show ?case
    by (cases "x = c") (simp_all add: split_on_snoc_sep split_on_snoc_other)
qed

lemma split_on_replicate: "split_on c (xs @ replicate n c) = split_on c xs @ replicate n []"
proof (induction n)
  case 0
  then show ?case by simp
next
  case (Suc n)
  have "xs @ replicate (Suc n) c = (xs @ replicate n c) @ [c]"
    by (simp add: replicate_append_same)
  then show ?case
    using Suc split_on_snoc_sep[of c "xs @ replicate n c"]
    by (simp add: replicate_append_same)
qed

lemma segments_of_Cons_slash: "segments_of (CHR ''/'' # s) = segments_of s"
  by (simp add: segments_of_def)

lemma segments_of_lstrip: "segments_of (lstrip_slash s) = segments_of s"
  by (induction s) (simp_all add: lstrip_slash_def segments_of_Cons_slash)

lemma rstrip_decomp: "\<exists>n. s = rstrip_slash s @ replicate n (CHR ''/'')"
proof -
  let ?P = "\<lambda>c. c = CHR ''/''"
  have "rev s = takeWhile ?P (rev s) @ dropWhile ?P (rev s)" by simp
  then have "s = rev (dropWhile ?P (rev s)) @ rev (takeWhile ?P (rev s))"
    by (metis rev_append rev_rev_ident)
  moreover have "rev (takeWhile ?P (rev s)) = replicate (length (takeWhile ?P (rev s))) (CHR ''/'')"
  proof -
    have "\<forall>x \<in> set (rev (takeWhile ?P (rev s))). x = CHR ''/''"
      by (auto dest: set_takeWhileD)
    then show ?thesis
      by (metis length_rev replicate_eqI)
  qed
  ultimately show ?thesis
    by (metis rstrip_slash_def)
qed

lemma segments_of_rstrip: "segments_of (rstrip_slash s) = segments_of s"
proof -
  obtain n where n: "s = rstrip_slash s @ replicate n (CHR ''/'')"
    using rstrip_decomp by blast
  have "segments_of (rstrip_slash s @ replicate n (CHR ''/'')) = segments_of (rstrip_slash s)"
    by (simp add: segments_of_def split_on_replicate)
  then show ?thesis using n by simp
qed

lemma lstrip_hd: "lstrip_slash s \<noteq> [] \<Longrightarrow> hd (lstrip_slash s) \<noteq> CHR ''/''"
  unfolding lstrip_slash_def by (metis (mono_tags, lifting) hd_dropWhile)

lemma rstrip_last: "rstrip_slash s \<noteq> [] \<Longrightarrow> last (rstrip_slash s) \<noteq> CHR ''/''"
  unfolding rstrip_slash_def
  by (metis (mono_tags, lifting) hd_dropWhile last_rev rev_is_Nil_conv)

lemma rstrip_hd: "rstrip_slash s \<noteq> [] \<Longrightarrow> hd (rstrip_slash s) = hd s"
proof -
  assume a: "rstrip_slash s \<noteq> []"
  obtain n where n: "s = rstrip_slash s @ replicate n (CHR ''/'')"
    using rstrip_decomp by blast
  show ?thesis using a n by (metis hd_append2)
qed

lemma join_Cons: "ys \<noteq> [] \<Longrightarrow> join sep (x # ys) = x @ sep @ join sep ys"
  by (cases ys) simp_all

lemma join_append:
  "xs \<noteq> [] \<Longrightarrow> ys \<noteq> [] \<Longrightarrow> join sep (xs @ ys) = join sep xs @ sep @ join sep ys"
proof (induction xs rule: join.induct[of _ sep])
  case (1 sep)
  then show ?case by simp
next
  case (2 sep x)
  then show ?case by (simp add: join_Cons)
next
  case (3 sep x y ys)
  then show ?case by simp
qed

lemma join_snoc_empty: "xs \<noteq> [] \<Longrightarrow> join sep (xs @ [[]]) = join sep xs @ sep"
  using join_append[of xs "[[]]" sep] by simp

lemma foldl_resolve:
  "\<forall>s \<in> set segs. s \<noteq> ''.'' \<and> s \<noteq> ''..'' \<Longrightarrow>
   foldl (\<lambda>resolved seg.
              if seg = ''..'' then butlast resolved
              else if seg = ''.'' then resolved
              else resolved @ [seg]) acc segs = acc @ segs"
  by (induction segs arbitrary: acc) auto

lemma resolve_dots_id:
  "\<forall>s \<in> set segs. s \<noteq> ''.'' \<and> s \<noteq> ''..'' \<Longrightarrow> resolve_dots segs = segs"
  unfolding resolve_dots_def using foldl_resolve[of segs "[]"] by simp

lemma filter_middle_Cons_snoc:
  "filter_middle (x # ys @ [z]) = x # filter (\<lambda>s. s \<noteq> []) ys @ [z]"
proof -
  obtain a l where e: "ys @ [z] = a # l" by (cases "ys @ [z]") auto
  have "filter_middle (x # a # l) = x # filter (\<lambda>s. s \<noteq> []) (butlast (a # l)) @ [last (a # l)]"
    by (simp add: filter_middle_def)
  then show ?thesis by (metis e butlast_snoc last_snoc)
qed

lemma doubled_slash_Cons:
  "doubled_slash (a # s) \<longleftrightarrow> (s \<noteq> [] \<and> a = CHR ''/'' \<and> hd s = CHR ''/'') \<or> doubled_slash s"
  by (cases s) auto

lemma doubled_slash_append:
  "doubled_slash (xs @ ys) \<longleftrightarrow>
     doubled_slash xs \<or> doubled_slash ys \<or>
     (xs \<noteq> [] \<and> ys \<noteq> [] \<and> last xs = CHR ''/'' \<and> hd ys = CHR ''/'')"
proof (induction xs rule: list.induct)
  case Nil
  then show ?case by simp
next
  case (Cons a xs)
  show ?case
  proof (cases xs)
    case Nil
    then show ?thesis by (auto simp: doubled_slash_Cons)
  next
    case (Cons b zs)
    then show ?thesis using Cons.IH by auto
  qed
qed

lemma no_slash_no_double: "CHR ''/'' \<notin> set s \<Longrightarrow> \<not> doubled_slash s"
  by (induction s rule: doubled_slash.induct) auto

lemma join_segments_clean:
  assumes "\<forall>s \<in> set zs. s \<noteq> [] \<and> CHR ''/'' \<notin> set s" and "zs \<noteq> []"
  shows "\<not> doubled_slash (join ''/'' zs) \<and> join ''/'' zs \<noteq> []
         \<and> hd (join ''/'' zs) \<noteq> CHR ''/'' \<and> last (join ''/'' zs) \<noteq> CHR ''/''"
  using assms
proof (induction zs)
  case Nil
  then show ?case by simp
next
  case (Cons x zs)
  have x: "x \<noteq> []" "CHR ''/'' \<notin> set x" using Cons.prems by auto
  have lx: "last x \<noteq> CHR ''/''" using x by (metis last_in_set)
  have hx: "hd x \<noteq> CHR ''/''" using x by (metis hd_in_set)
  show ?case
  proof (cases zs)
    case Nil
    then show ?thesis using x lx hx by (simp add: no_slash_no_double)
  next
    case (Cons y ys)
    then have ih: "\<not> doubled_slash (join ''/'' zs) \<and> join ''/'' zs \<noteq> []
         \<and> hd (join ''/'' zs) \<noteq> CHR ''/'' \<and> last (join ''/'' zs) \<noteq> CHR ''/''"
      using Cons.IH Cons.prems by auto
    have j: "join ''/'' (x # zs) = x @ ''/'' @ join ''/'' zs"
      using Cons by (simp add: join_Cons)
    have d1: "\<not> doubled_slash (''/'' @ join ''/'' zs)"
      using ih by (simp add: doubled_slash_Cons)
    have "\<not> doubled_slash (x @ ''/'' @ join ''/'' zs)"
      using d1 lx x no_slash_no_double[of x] doubled_slash_append[of x "''/'' @ join ''/'' zs"]
      by simp
    then show ?thesis using ih x hx j by simp
  qed
qed

lemma plain_lstrip: "plain_chars s \<Longrightarrow> plain_chars (lstrip_slash s)"
  unfolding plain_chars_def lstrip_slash_def list_all_iff
  by (meson set_dropWhileD)

lemma plain_rstrip: "plain_chars s \<Longrightarrow> plain_chars (rstrip_slash s)"
  unfolding plain_chars_def rstrip_slash_def list_all_iff
  by (metis set_dropWhileD set_rev)

lemma plain_base: "plain_chars s \<Longrightarrow> plain_chars (s @ ''/'')"
  by (simp add: plain_chars_def)

lemma lstrip_last: "lstrip_slash s \<noteq> [] \<Longrightarrow> last (lstrip_slash s) = last s"
proof -
  assume a: "lstrip_slash s \<noteq> []"
  have "s = takeWhile (\<lambda>c. c = CHR ''/'') s @ lstrip_slash s"
    by (simp add: lstrip_slash_def)
  then show ?thesis using a by (metis last_appendR)
qed

lemma segments_of_clean: "s \<in> set (segments_of p) \<Longrightarrow> s \<noteq> [] \<and> CHR ''/'' \<notin> set s"
  by (auto simp: segments_of_def dest: split_on_no_sep)

lemma join_paths_segments:
  assumes bs: "bs = [] \<or> hd bs \<noteq> CHR ''/''"
    and u: "u \<noteq> []" "hd u \<noteq> CHR ''/''"
    and nb: "no_dots bs" and nu: "no_dots u"
  shows "join_paths (bs @ ''/'') u =
           (if bs = [] then ''/'' else []) @ join ''/'' (segments_of bs @ segments_of u)
             @ (if last u = CHR ''/'' then ''/'' else [])"
proof -
  let ?ne = "\<lambda>s :: string. s \<noteq> []"
  obtain F R where sb: "split_on CHR ''/'' bs = F # R"
    by (cases "split_on CHR ''/'' bs") auto
  define U where "U = butlast (split_on CHR ''/'' u)"
  define L where "L = last (split_on CHR ''/'' u)"
  have su: "split_on CHR ''/'' u = U @ [L]"
    by (simp add: U_def L_def)
  have bp: "split_on CHR ''/'' (bs @ ''/'') = F # R @ [[]]"
    using split_on_snoc_sep[of "CHR ''/''" bs] sb by simp
  have t1: "take 1 u \<noteq> ''/''"
    using u by (cases u) auto
  let ?segs = "F # filter ?ne R @ filter ?ne U @ [L]"
  have fm: "filter_middle ((F # R @ [[]]) @ U @ [L]) = ?segs"
    using filter_middle_Cons_snoc[of F "R @ [[]] @ U" L] by simp
  have Fe: "F = [] \<longleftrightarrow> bs = []"
    using hd_split_on_empty[of "CHR ''/''" bs] sb bs by auto
  have Le: "L = [] \<longleftrightarrow> last u = CHR ''/''"
    using last_split_on_empty[of "CHR ''/''" u] u by (simp add: L_def)
  have sxb: "filter ?ne (F # R) = segments_of bs"
    by (simp add: segments_of_def sb)
  have sxu: "filter ?ne (U @ [L]) = segments_of u"
    by (simp add: segments_of_def su)
  have hu: "hd (split_on CHR ''/'' u) \<noteq> []"
    using hd_split_on_empty[of "CHR ''/''" u] u by simp
  have mem: "s \<in> set ?segs \<Longrightarrow> s \<noteq> [] \<Longrightarrow> s \<in> set (segments_of bs) \<union> set (segments_of u)" for s
    unfolding sxb[symmetric] sxu[symmetric] by auto
  have nd: "\<forall>s \<in> set ?segs. s \<noteq> ''.'' \<and> s \<noteq> ''..''"
  proof
    fix s assume s: "s \<in> set ?segs"
    show "s \<noteq> ''.'' \<and> s \<noteq> ''..''"
    proof (cases "s = []")
      case True
      then show ?thesis by simp
    next
      case False
      from mem[OF s False] nb nu show ?thesis
        by (auto simp: no_dots_def)
    qed
  qed
  have lastsegs: "last ?segs = L" by simp
  have Ld: "L \<notin> {''.'', ''..''}"
    using nd by auto
  have uj: "join_paths (bs @ ''/'') u = join ''/'' ?segs"
  proof -
    have j2: "join ''/'' ?segs \<noteq> []"
      by (simp add: join_Cons)
    show ?thesis
      using u t1 bp su fm nd Ld j2 resolve_dots_id[OF nd]
      by (simp add: join_paths_def Let_def)
  qed
  have segP: "filter ?ne U @ (if L = [] then [] else [L]) = segments_of u"
    using sxu by (cases "L = []") simp_all
  have segP_ne: "segments_of u \<noteq> []"
  proof -
    have "hd (U @ [L]) \<noteq> []" using hu su by simp
    then have "filter ?ne (U @ [L]) \<noteq> []"
      by (cases U) auto
    then show ?thesis unfolding sxu .
  qed
  show ?thesis
  proof (cases "L = []")
    case Lemp: True
    then have pu: "filter ?ne U = segments_of u" using segP by simp
    show ?thesis
    proof (cases "bs = []")
      case True
      then have "F = []" "R = []" using Fe sb by auto
      then have "join ''/'' ?segs = ''/'' @ join ''/'' (segments_of u) @ ''/''"
        using pu segP_ne Lemp join_snoc_empty[of "segments_of u" "''/''"]
        by (simp add: join_Cons)
      then show ?thesis using uj True Le Lemp by (simp add: segments_of_def)
    next
      case False
      then have "F \<noteq> []" using Fe by simp
      then have fb: "F # filter ?ne R = segments_of bs" using sxb by simp
      have e: "?segs = (segments_of bs @ segments_of u) @ [[]]"
        using fb pu Lemp by simp
      have "join ''/'' ((segments_of bs @ segments_of u) @ [[]]) =
              join ''/'' (segments_of bs @ segments_of u) @ ''/''"
        using join_snoc_empty[of "segments_of bs @ segments_of u" "''/''"] segP_ne
        by simp
      then have "join ''/'' ?segs = join ''/'' (segments_of bs @ segments_of u) @ ''/''"
        by (simp only: e)
      then show ?thesis using uj False Le Lemp by simp
    qed
  next
    case Lne: False
    then have pu: "filter ?ne U @ [L] = segments_of u" using segP by simp
    show ?thesis
    proof (cases "bs = []")
      case True
      then have "F = []" "R = []" using Fe sb by auto
      then have "join ''/'' ?segs = ''/'' @ join ''/'' (segments_of u)"
        using pu segP_ne by (simp add: join_Cons)
      then show ?thesis using uj True Le Lne by (simp add: segments_of_def)
    next
      case False
      then have "F \<noteq> []" using Fe by simp
      then have fb: "F # filter ?ne R = segments_of bs" using sxb by simp
      have "?segs = segments_of bs @ segments_of u"
        using fb pu by (metis append_Cons append_assoc)
      then show ?thesis using uj False Le Lne by simp
    qed
  qed
qed

lemma segments_of_nonempty:
  assumes "u \<noteq> []" "hd u \<noteq> CHR ''/''"
  shows "segments_of u \<noteq> []"
proof -
  have "hd (split_on CHR ''/'' u) \<noteq> []"
    using hd_split_on_empty[of "CHR ''/''" u] assms by simp
  moreover have "hd (split_on CHR ''/'' u) \<in> set (split_on CHR ''/'' u)"
    by simp
  ultimately have "hd (split_on CHR ''/'' u) \<in> set (segments_of u)"
    by (simp add: segments_of_def)
  then show ?thesis by auto
qed

lemma no_dots_strip: "no_dots (rstrip_slash (lstrip_slash X)) = no_dots X"
  by (simp add: no_dots_def segments_of_rstrip segments_of_lstrip)

lemma no_dots_lstrip: "no_dots (lstrip_slash P) = no_dots P"
  by (simp add: no_dots_def segments_of_lstrip)

lemma url_path_lstrip: "url_path (lstrip_slash P) = lstrip_slash (url_path P)"
  by (induction P) (simp_all add: url_path_def lstrip_slash_def)

lemma url_query_lstrip: "url_query (lstrip_slash P) = url_query P"
  by (induction P) (simp_all add: url_query_def lstrip_slash_def)

lemma url_split: "url_path u @ url_query u = u"
  by (simp add: url_path_def url_query_def)

lemma query_part:
  assumes "query_chars (url_query u)"
  shows "(if drop 1 (url_query u) = [] then [] else ''?'' @ drop 1 (url_query u)) = url_query u"
proof (cases "url_query u")
  case Nil
  then show ?thesis by simp
next
  case (Cons c rest)
  then have "hd (url_query u) = CHR ''?''"
    unfolding url_query_def by (metis (mono_tags, lifting) hd_dropWhile list.distinct(1))
  then have "c = CHR ''?''" using Cons by simp
  moreover have "rest \<noteq> []" using assms Cons by (auto simp: query_chars_def)
  ultimately show ?thesis using Cons by simp
qed

lemma stripped_base:
  "rstrip_slash (lstrip_slash X) = [] \<or> hd (rstrip_slash (lstrip_slash X)) \<noteq> CHR ''/''"
proof (cases "rstrip_slash (lstrip_slash X) = []")
  case True
  then show ?thesis by simp
next
  case False
  then have l: "lstrip_slash X \<noteq> []" by (auto simp: rstrip_slash_def)
  have "hd (rstrip_slash (lstrip_slash X)) = hd (lstrip_slash X)"
    using False rstrip_hd[of "lstrip_slash X"] by simp
  then show ?thesis using lstrip_hd[OF l] by simp
qed

lemma hook_operands:
  assumes cx: "plain_chars X" and cp: "plain_chars (url_path P)"
    and cq: "query_chars (url_query P)"
  shows "base_operand (rstrip_slash (lstrip_slash X) @ ''/'')"
    and "url_operand (lstrip_slash P)"
proof -
  let ?b = "rstrip_slash (lstrip_slash X)"
  have "plain_chars (?b @ ''/'')"
    using cx by (intro plain_base plain_rstrip plain_lstrip)
  moreover have "\<not> startswith (?b @ ''/'') ''//''"
    using stripped_base[of X] by (cases ?b) (auto simp: startswith_def)
  ultimately show "base_operand (?b @ ''/'')" by (simp add: base_operand_def)
  have "\<not> startswith (lstrip_slash P) ''/''"
    using lstrip_hd[of P] by (cases "lstrip_slash P") (auto simp: startswith_def)
  then show "url_operand (lstrip_slash P)"
    using cp cq by (simp add: url_operand_def url_path_lstrip url_query_lstrip plain_lstrip)
qed

lemma morph_unfold:
  "morph_action_hook False uj X P =
     (let url = uj (rstrip_slash (lstrip_slash X) @ ''/'') (lstrip_slash P)
      in if \<not> startswith url ''/'' then ''/'' @ url else url)"
  by (simp add: morph_action_hook_def)

lemma morph_normal_form:
  assumes agree: "\<forall>b u. base_operand b \<and> url_operand u \<longrightarrow> uj b u = urljoin_path b u"
    and cx: "plain_chars X" and cp: "plain_chars (url_path P)"
    and cq: "query_chars (url_query P)"
    and nx: "no_dots X" and np: "no_dots (url_path P)"
    and ne: "lstrip_slash (url_path P) \<noteq> []"
  shows "morph_action_hook False uj X P =
           ''/'' @ join ''/'' (segments_of X @ segments_of (url_path P))
             @ (if last (url_path P) = CHR ''/'' then ''/'' else []) @ url_query P"
proof -
  define b where "b = rstrip_slash (lstrip_slash X)"
  define u where "u = lstrip_slash P"
  define p where "p = lstrip_slash (url_path P)"
  let ?J = "join ''/'' (segments_of X @ segments_of (url_path P))"
  let ?t = "if last (url_path P) = CHR ''/'' then ''/'' else []"
  let ?q = "url_query P"
  have up: "url_path u = p" by (simp add: u_def p_def url_path_lstrip)
  have uq: "url_query u = ?q" by (simp add: u_def url_query_lstrip)
  have e1: "uj (b @ ''/'') u = urljoin_path (b @ ''/'') u"
    using agree hook_operands[OF cx cp cq] by (simp add: b_def u_def)
  have hb: "b = [] \<or> hd b \<noteq> CHR ''/''" using stripped_base[of X] by (simp add: b_def)
  have pn: "p \<noteq> []" using ne by (simp add: p_def)
  have hp: "hd p \<noteq> CHR ''/''" using lstrip_hd[OF ne] by (simp add: p_def)
  have un: "u \<noteq> []" using url_split[of u] up pn by auto
  have sb: "segments_of b = segments_of X"
    by (simp add: b_def segments_of_rstrip segments_of_lstrip)
  have sp: "segments_of p = segments_of (url_path P)"
    by (simp add: p_def segments_of_lstrip)
  have lp: "last p = last (url_path P)" using lstrip_last[OF ne] by (simp add: p_def)
  have nb: "no_dots b" using nx by (simp add: b_def no_dots_strip)
  have npp: "no_dots p" using np by (simp add: p_def no_dots_lstrip)
  have e2: "join_paths (b @ ''/'') p = (if b = [] then ''/'' else []) @ ?J @ ?t"
    using join_paths_segments[OF hb pn hp nb npp] by (simp only: sb sp lp)
  have qp: "(if drop 1 (url_query u) = [] then [] else ''?'' @ drop 1 (url_query u)) = ?q"
    using query_part[of u] cq uq by simp
  have e3: "urljoin_path (b @ ''/'') u = join_paths (b @ ''/'') p @ ?q"
    unfolding urljoin_path_def Let_def up qp using un pn by simp
  have spn: "segments_of (url_path P) \<noteq> []" using segments_of_nonempty[OF pn hp] sp by simp
  have cl: "?J \<noteq> [] \<and> hd ?J \<noteq> CHR ''/''"
    using join_segments_clean[of "segments_of X @ segments_of (url_path P)"] spn
      segments_of_clean
    by auto
  have m: "morph_action_hook False uj X P =
             (if \<not> startswith (uj (b @ ''/'') u) ''/'' then ''/'' @ uj (b @ ''/'') u
              else uj (b @ ''/'') u)"
    by (simp add: morph_unfold Let_def b_def u_def)
  show ?thesis
  proof (cases "b = []")
    case True
    then have "uj (b @ ''/'') u = ''/'' @ ?J @ ?t @ ?q" using e1 e2 e3 by simp
    then show ?thesis using m by (simp add: startswith_def)
  next
    case False
    then have r: "uj (b @ ''/'') u = ?J @ ?t @ ?q" using e1 e2 e3 by simp
    have "\<not> startswith (?J @ ?t @ ?q) ''/''"
      using cl by (cases ?J) (auto simp: startswith_def)
    then show ?thesis using m r by simp
  qed
qed

lemma morph_slashes_only:
  assumes agree: "\<forall>b u. base_operand b \<and> url_operand u \<longrightarrow> uj b u = urljoin_path b u"
    and cx: "plain_chars X" and cp: "plain_chars (url_path P)"
    and cq: "query_chars (url_query P)"
    and em: "lstrip_slash (url_path P) = []"
  shows "morph_action_hook False uj X P =
           (if rstrip_slash (lstrip_slash X) = [] then ''/''
            else ''/'' @ rstrip_slash (lstrip_slash X) @ ''/'') @ url_query P"
proof -
  define b where "b = rstrip_slash (lstrip_slash X)"
  define u where "u = lstrip_slash P"
  let ?q = "url_query P"
  have up: "url_path u = []" using em by (simp add: u_def url_path_lstrip)
  have uq: "url_query u = ?q" by (simp add: u_def url_query_lstrip)
  have u: "u = ?q" using url_split[of u] up uq by simp
  have e1: "uj (b @ ''/'') u = urljoin_path (b @ ''/'') u"
    using agree hook_operands[OF cx cp cq] by (simp add: b_def u_def)
  have hb: "b = [] \<or> hd b \<noteq> CHR ''/''" using stripped_base[of X] by (simp add: b_def)
  have qp: "(if drop 1 (url_query u) = [] then [] else ''?'' @ drop 1 (url_query u)) = ?q"
    using query_part[of u] cq uq by simp
  have e3: "urljoin_path (b @ ''/'') u = b @ ''/'' @ ?q"
  proof (cases "u = []")
    case True
    then show ?thesis using u by (simp add: urljoin_path_def)
  next
    case False
    then show ?thesis unfolding urljoin_path_def Let_def up qp by simp
  qed
  have m: "morph_action_hook False uj X P =
             (if \<not> startswith (uj (b @ ''/'') u) ''/'' then ''/'' @ uj (b @ ''/'') u
              else uj (b @ ''/'') u)"
    by (simp add: morph_unfold Let_def b_def u_def)
  show ?thesis
  proof (cases "b = []")
    case True
    then show ?thesis using m e1 e3 by (simp add: startswith_def b_def[symmetric])
  next
    case False
    then have "\<not> startswith (b @ ''/'' @ ?q) ''/''"
      using hb by (cases b) (auto simp: startswith_def)
    then show ?thesis using m e1 e3 False by (simp add: b_def[symmetric])
  qed
qed

lemma normal_form_clean:
  assumes "segments_of P \<noteq> []"
  shows "\<not> doubled_slash (''/'' @ join ''/'' (segments_of X @ segments_of P) @ t)
         \<or> \<not> (t = [] \<or> t = ''/'')"
proof -
  let ?J = "join ''/'' (segments_of X @ segments_of P)"
  have cl: "\<not> doubled_slash ?J \<and> ?J \<noteq> [] \<and> hd ?J \<noteq> CHR ''/'' \<and> last ?J \<noteq> CHR ''/''"
    using join_segments_clean[of "segments_of X @ segments_of P"] assms segments_of_clean
    by auto
  have a: "\<not> doubled_slash (?J @ ''/'')"
    using cl doubled_slash_append[of ?J "''/''"] by simp
  have b: "\<not> doubled_slash (''/'' @ ?J @ ''/'')"
    using a cl doubled_slash_Cons[of "CHR ''/''" "?J @ ''/''"] by simp
  have c: "\<not> doubled_slash (''/'' @ ?J)"
    using cl doubled_slash_Cons[of "CHR ''/''" "?J"] by simp
  show ?thesis using b c by auto
qed

text \<open>
  Claim C3, amended. \<^verbatim>\<open>urljoin\<close> is any function that is \<open>urljoin_path\<close> on the operands
  the hook hands it (\<open>base_operand\<close>, \<open>url_operand\<close>). The request path \<open>X\<close> and the path of
  the action \<open>P\<close> (what comes before its first \<^verbatim>\<open>?\<close>) have no \<^verbatim>\<open>:\<close>, \<^verbatim>\<open>#\<close>, \<^verbatim>\<open>;\<close>, space or
  control character, and the query of \<open>P\<close>, if there is one, is not empty and has no \<^verbatim>\<open>#\<close>,
  space or control character. Then:

  \<^item> with the flag on, the result is \<open>X\<close> followed by \<open>P\<close>, unchanged;

  \<^item> with the flag off, when the path of \<open>P\<close> has a character other than \<^verbatim>\<open>/\<close> and neither
    it nor \<open>X\<close> has a \<^verbatim>\<open>.\<close> or \<^verbatim>\<open>..\<close> segment, the result is one slash, then the non-empty
    segments of \<open>X\<close> and of the path of \<open>P\<close> joined by single slashes, then a closing slash
    exactly when the path of \<open>P\<close> ends with one, then the query of \<open>P\<close> as it is; what
    comes before the query has no two slashes in a row;

  \<^item> with the flag off, when the path of \<open>P\<close> is empty or made of slashes only, the result
    is \<open>X\<close> with the slashes at its two ends replaced by one slash each (one slash alone
    when nothing else is left of \<open>X\<close>), then the query of \<open>P\<close>: what is inside \<open>X\<close> is kept
    as it is.
\<close>

theorem morph_action_hook_normalizes:
  assumes agree: "\<forall>b u. base_operand b \<and> url_operand u \<longrightarrow> uj b u = urljoin_path b u"
    and cx: "plain_chars X" and cp: "plain_chars (url_path P)"
    and cq: "query_chars (url_query P)"
  shows "morph_action_hook True uj X P = X @ P
         \<and> (lstrip_slash (url_path P) \<noteq> [] \<and> no_dots X \<and> no_dots (url_path P) \<longrightarrow>
              morph_action_hook False uj X P =
                ''/'' @ join ''/'' (segments_of X @ segments_of (url_path P))
                  @ (if last (url_path P) = CHR ''/'' then ''/'' else []) @ url_query P
              \<and> \<not> doubled_slash
                    (''/'' @ join ''/'' (segments_of X @ segments_of (url_path P))
                       @ (if last (url_path P) = CHR ''/'' then ''/'' else [])))
         \<and> (lstrip_slash (url_path P) = [] \<longrightarrow>
              morph_action_hook False uj X P =
                (if rstrip_slash (lstrip_slash X) = [] then ''/''
                 else ''/'' @ rstrip_slash (lstrip_slash X) @ ''/'') @ url_query P)"
proof -
  have t: "morph_action_hook True uj X P = X @ P"
    by (simp add: morph_action_hook_def)
  have n: "morph_action_hook False uj X P =
                ''/'' @ join ''/'' (segments_of X @ segments_of (url_path P))
                  @ (if last (url_path P) = CHR ''/'' then ''/'' else []) @ url_query P
              \<and> \<not> doubled_slash
                    (''/'' @ join ''/'' (segments_of X @ segments_of (url_path P))
                       @ (if last (url_path P) = CHR ''/'' then ''/'' else []))"
    if ne: "lstrip_slash (url_path P) \<noteq> []" and nx: "no_dots X" and np: "no_dots (url_path P)"
  proof -
    have spn: "segments_of (url_path P) \<noteq> []"
      using segments_of_nonempty[of "lstrip_slash (url_path P)"] ne lstrip_hd[OF ne]
      by (simp add: segments_of_lstrip)
    have d: "\<not> doubled_slash
                    (''/'' @ join ''/'' (segments_of X @ segments_of (url_path P))
                       @ (if last (url_path P) = CHR ''/'' then ''/'' else []))"
      using normal_form_clean[OF spn, of X "if last (url_path P) = CHR ''/'' then ''/'' else []"]
      by (simp split: if_splits)
    show ?thesis using morph_normal_form[OF agree cx cp cq nx np ne] d by blast
  qed
  have s: "morph_action_hook False uj X P =
                (if rstrip_slash (lstrip_slash X) = [] then ''/''
                 else ''/'' @ rstrip_slash (lstrip_slash X) @ ''/'') @ url_query P"
    if "lstrip_slash (url_path P) = []"
    using morph_slashes_only[OF agree cx cp cq that] .
  show ?thesis using t n s by blast
qed

theorem morph_action_hook_normalizes_witness:
  "(morph_action_hook True urljoin_path ''/v1/'' ''/servers?limit=10'' = ''/v1//servers?limit=10''
    \<and> morph_action_hook False urljoin_path ''/v1/'' ''/servers?limit=10'' = ''/v1/servers?limit=10''
    \<and> \<not> doubled_slash ''/v1/servers'')
   \<and> morph_action_hook False urljoin_path ''//api//v1//'' ''//'' = ''/api//v1/''
   \<and> morph_action_hook False urljoin_path '''' ''/'' = ''/''"
  using morph_action_hook_normalizes [of urljoin_path "''/v1/''" "''/servers?limit=10''"]
        morph_action_hook_normalizes [of urljoin_path "''//api//v1//''" "''//''"]
        morph_action_hook_normalizes [of urljoin_path "''''" "''/''"]
  by (simp add: plain_chars_def query_chars_def url_path_def url_query_def no_dots_def
      segments_of_def lstrip_slash_def rstrip_slash_def)

text \<open>
  The claim as stated fails for an action made of slashes only: \<^verbatim>\<open>lstrip\<close> empties it,
  \<^verbatim>\<open>urljoin\<close> with an empty second operand returns the base as it is, and a doubled slash
  inside the request path stays.
\<close>

theorem morph_action_hook_keeps_prefix_slashes:
  "morph_action_hook False urljoin_path ''/api//v1'' ''/'' = ''/api//v1/''
   \<and> doubled_slash ''/api//v1/''"
  by (simp add: morph_action_hook_def lstrip_slash_def rstrip_slash_def urljoin_path_def
      startswith_def)

section \<open>Polling for a job\<close>


























end
